theory Spec2Isabelle
  imports Complex_Main "HOL-Library.Sublist" "HOL-Library.Multiset"
begin

section \<open>Runtime values shared by both stores\<close>

text \<open>
  The backend keeps its data in two singleton objects, \<open>productStore\<close> and
  \<open>galleryStore\<close>, each holding JavaScript \<open>Map\<close>s from identifier to record.
  A \<open>Map\<close> iterates in insertion order, \<open>set\<close> on a present key replaces the value
  where it stands and on an absent key appends, \<open>delete\<close> removes the entry:
  an association list with these three operations.
\<close>

type_synonym ('k, 'v) jsmap = "('k \<times> 'v) list"

fun Map_set :: "'k \<Rightarrow> 'v \<Rightarrow> ('k, 'v) jsmap \<Rightarrow> ('k, 'v) jsmap" where
  "Map_set k v [] = [(k, v)]"
| "Map_set k v ((k', v') # m) = (if k' = k then (k, v) # m else (k', v') # Map_set k v m)"

definition Map_get :: "('k, 'v) jsmap \<Rightarrow> 'k \<Rightarrow> 'v option" where
  "Map_get m k = map_of m k"

definition Map_delete :: "'k \<Rightarrow> ('k, 'v) jsmap \<Rightarrow> ('k, 'v) jsmap" where
  "Map_delete k m = filter (\<lambda>e. fst e \<noteq> k) m"

definition Map_values :: "('k, 'v) jsmap \<Rightarrow> 'v list" where
  "Map_values m = map snd m"

definition Map_size :: "('k, 'v) jsmap \<Rightarrow> nat" where
  "Map_size m = length m"

text \<open>
  What a service throws: a \<open>ServiceError\<close> (code, message, HTTP status, optional
  details), the only kind the controllers answer with its own code, or a plain
  JavaScript \<open>Error\<close> carrying a message only, which the controllers hand to
  \<open>next(error)\<close>.
\<close>

datatype error =
  ServiceError string string nat "string list option"
| Error string

fun error_message :: "error \<Rightarrow> string" where
  "error_message (ServiceError c m st d) = m"
| "error_message (Error m) = m"

text \<open>\<open>String.prototype.includes\<close>: the needle occurs as a contiguous part.\<close>

fun String_includes :: "string \<Rightarrow> string \<Rightarrow> bool" where
  "String_includes [] needle = (needle = [])"
| "String_includes (c # cs) needle = (prefix needle (c # cs) \<or> String_includes cs needle)"

text \<open>
  \<open>Array.prototype.sort(compareFn)\<close>. ECMAScript fixes the result for a consistent
  comparator (ascending by \<open>compareFn\<close>, equal elements in their original order) and
  leaves it to the engine otherwise. The model is the stable insertion sort: elements
  are taken left to right, each one placed before the first already placed element
  it compares below (\<open>compareFn(x, y) < 0\<close>), else at the end.
\<close>

fun sort_insert :: "('a \<Rightarrow> 'a \<Rightarrow> rat) \<Rightarrow> 'a \<Rightarrow> 'a list \<Rightarrow> 'a list" where
  "sort_insert compareFn x [] = [x]"
| "sort_insert compareFn x (y # ys) =
     (if compareFn x y < 0 then x # y # ys else y # sort_insert compareFn x ys)"

definition Array_sort :: "('a \<Rightarrow> 'a \<Rightarrow> rat) \<Rightarrow> 'a list \<Rightarrow> 'a list" where
  "Array_sort compareFn xs = foldl (\<lambda>acc x. sort_insert compareFn x acc) [] xs"

text \<open>\<open>Array.prototype.slice(start, end)\<close> for \<open>0 \<le> start\<close>.\<close>

definition slice :: "'a list \<Rightarrow> nat \<Rightarrow> nat \<Rightarrow> 'a list" where
  "slice xs start endIndex = take (endIndex - start) (drop start xs)"

text \<open>
  A JavaScript \<open>number\<close> is an IEEE 754 double. The counters and the popularity score
  hold non-negative integers. A double has a significand of 53 bits: it holds every
  integer up to \<open>2 ^ 53\<close> exactly and, of the larger ones, the multiples of
  \<open>2 ^ (b - 53)\<close> where \<open>b\<close> is the number of bits of the integer. The result of
  \<open>+\<close> and \<open>*\<close> is the exact result rounded to the nearest double, a tie going to the
  even significand. (The integers of this development stay far below the largest double,
  about \<open>1.8 * 10 ^ 308\<close>, past which the source has \<open>Infinity\<close>.)
\<close>

fun bitLength :: "nat \<Rightarrow> nat" where
  "bitLength n = (if n = 0 then 0 else Suc (bitLength (n div 2)))"

declare bitLength.simps [simp del]

definition roundNumber :: "nat \<Rightarrow> nat" where
  "roundNumber n =
     (let q = 2 ^ (bitLength n - 53);
          m = n div q;
          r = n mod q
      in if 2 * r < q \<or> (2 * r = q \<and> even m) then m * q else (m + 1) * q)"

definition Number_add :: "nat \<Rightarrow> nat \<Rightarrow> nat" where
  "Number_add a b = roundNumber (a + b)"

definition Number_mul :: "nat \<Rightarrow> nat \<Rightarrow> nat" where
  "Number_mul a b = roundNumber (a * b)"

section \<open>Product constants\<close>

datatype ProductAvailabilityStatus = AVAILABLE | ON_REQUEST | OUT_OF_STOCK

datatype ProductSortCriteria =
  NAME_ASC | NAME_DESC | PRICE_ASC | PRICE_DESC | DATE_NEWEST | DATE_OLDEST | POPULARITY

datatype ProductLayout = GRID | LIST_LAYOUT

datatype ProductNavigationMode = PAGINATION | INFINITE_SCROLL

definition MAX_PRODUCTS :: nat where "MAX_PRODUCTS = 10000"
definition BATCH_SIZE :: nat where "BATCH_SIZE = 24"
definition NEW_PRODUCT_DAYS :: int where "NEW_PRODUCT_DAYS = 30"
definition VIEW_WEIGHT :: nat where "VIEW_WEIGHT = 1"
definition CLICK_WEIGHT :: nat where "CLICK_WEIGHT = 3"
definition INTERACTION_WEIGHT :: nat where "INTERACTION_WEIGHT = 2"

section \<open>Product store\<close>

text \<open>
  \<open>ProductRecord\<close>. Prices are JavaScript numbers or \<open>null\<close>: a rational or \<open>None\<close>.
  The two timestamps are ISO strings made by \<open>toISOString\<close> and read back by
  \<open>new Date(s).getTime()\<close>; the model keeps the milliseconds they encode.
\<close>

record ProductRecord =
  p_id :: string
  p_name :: string
  p_code :: string
  p_mainImageUrl :: string
  p_price :: "rat option"
  p_availabilityStatus :: ProductAvailabilityStatus
  p_isFeatured :: bool
  p_isNew :: bool
  p_createdDate :: int
  p_isPromotional :: bool
  p_promotionalPrice :: "rat option"
  p_popularityScore :: nat
  p_viewCount :: nat
  p_clickCount :: nat
  p_interactionCount :: nat
  p_lastPopularityUpdate :: int
  p_active :: bool

text \<open>
  \<open>Partial<ProductRecord>\<close>, with the fields the services ever put into one;
  \<open>None\<close> is a key the object does not have.
\<close>

record ProductPartial =
  u_name :: "string option"
  u_code :: "string option"
  u_mainImageUrl :: "string option"
  u_price :: "rat option option"
  u_availabilityStatus :: "ProductAvailabilityStatus option"
  u_isFeatured :: "bool option"
  u_active :: "bool option"
  u_isPromotional :: "bool option"
  u_promotionalPrice :: "rat option option"
  u_popularityScore :: "nat option"
  u_viewCount :: "nat option"
  u_clickCount :: "nat option"
  u_interactionCount :: "nat option"

definition emptyPartial :: ProductPartial where
  "emptyPartial = \<lparr> u_name = None, u_code = None, u_mainImageUrl = None, u_price = None,
     u_availabilityStatus = None, u_isFeatured = None, u_active = None,
     u_isPromotional = None, u_promotionalPrice = None, u_popularityScore = None,
     u_viewCount = None, u_clickCount = None, u_interactionCount = None \<rparr>"

definition orElse :: "'a option \<Rightarrow> 'a \<Rightarrow> 'a" where
  "orElse v d = (case v of None \<Rightarrow> d | Some x \<Rightarrow> x)"

text \<open>The object spread \<open>{ ...existing, ...data }\<close>.\<close>

definition spreadProduct :: "ProductRecord \<Rightarrow> ProductPartial \<Rightarrow> ProductRecord" where
  "spreadProduct existing d = existing \<lparr>
     p_name := orElse (u_name d) (p_name existing),
     p_code := orElse (u_code d) (p_code existing),
     p_mainImageUrl := orElse (u_mainImageUrl d) (p_mainImageUrl existing),
     p_price := orElse (u_price d) (p_price existing),
     p_availabilityStatus := orElse (u_availabilityStatus d) (p_availabilityStatus existing),
     p_isFeatured := orElse (u_isFeatured d) (p_isFeatured existing),
     p_active := orElse (u_active d) (p_active existing),
     p_isPromotional := orElse (u_isPromotional d) (p_isPromotional existing),
     p_promotionalPrice := orElse (u_promotionalPrice d) (p_promotionalPrice existing),
     p_popularityScore := orElse (u_popularityScore d) (p_popularityScore existing),
     p_viewCount := orElse (u_viewCount d) (p_viewCount existing),
     p_clickCount := orElse (u_clickCount d) (p_clickCount existing),
     p_interactionCount := orElse (u_interactionCount d) (p_interactionCount existing) \<rparr>"

record ProductStore =
  records :: "(string, ProductRecord) jsmap"

definition emptyProductStore :: ProductStore where
  "emptyProductStore = \<lparr> records = [] \<rparr>"

definition getAll :: "ProductStore \<Rightarrow> ProductRecord list" where
  "getAll s = filter p_active (Map_values (records s))"

definition getById :: "ProductStore \<Rightarrow> string \<Rightarrow> ProductRecord option" where
  "getById s i =
     (case Map_get (records s) i of
        None \<Rightarrow> None
      | Some r \<Rightarrow> if p_active r then Some r else None)"

definition add :: "ProductStore \<Rightarrow> ProductRecord \<Rightarrow> error + ProductStore" where
  "add s r =
     (if Map_size (records s) \<ge> MAX_PRODUCTS then Inl (Error ''Maximum products limit reached'')
      else Inr (s \<lparr> records := Map_set (p_id r) r (records s) \<rparr>))"

definition update :: "ProductStore \<Rightarrow> string \<Rightarrow> ProductPartial \<Rightarrow> ProductRecord option \<times> ProductStore" where
  "update s i d =
     (case Map_get (records s) i of
        None \<Rightarrow> (None, s)
      | Some existing \<Rightarrow>
          (let updated = spreadProduct existing d
           in (Some updated, s \<lparr> records := Map_set i updated (records s) \<rparr>)))"

definition delete :: "ProductStore \<Rightarrow> string \<Rightarrow> bool \<times> ProductStore" where
  "delete s i =
     (case Map_get (records s) i of
        None \<Rightarrow> (False, s)
      | Some existing \<Rightarrow>
          (True, s \<lparr> records := Map_set i (existing \<lparr> p_active := False \<rparr>) (records s) \<rparr>))"

definition exists :: "ProductStore \<Rightarrow> string \<Rightarrow> bool" where
  "exists s i = (case Map_get (records s) i of None \<Rightarrow> False | Some r \<Rightarrow> p_active r)"

text \<open>\<open>excludeId\<close> is optional: \<open>None\<close> is \<open>undefined\<close>, which no record id equals.\<close>

definition codeExists :: "ProductStore \<Rightarrow> string \<Rightarrow> string option \<Rightarrow> bool" where
  "codeExists s c excludeId =
     list_ex (\<lambda>r. p_code r = c \<and> p_active r \<and> Some (p_id r) \<noteq> excludeId)
       (Map_values (records s))"

text \<open>\<open>now\<close> is the clock reading of \<open>new Date()\<close>, in milliseconds.\<close>

definition isProductNew :: "int \<Rightarrow> int \<Rightarrow> bool" where
  "isProductNew now createdDate =
     (let diffDays = (now - createdDate) div (1000 * 60 * 60 * 24)
      in diffDays \<le> NEW_PRODUCT_DAYS)"

definition calculatePopularityScore :: "nat \<Rightarrow> nat \<Rightarrow> nat \<Rightarrow> nat" where
  "calculatePopularityScore viewCount clickCount interactionCount =
     Number_add
       (Number_add (Number_mul viewCount VIEW_WEIGHT) (Number_mul clickCount CLICK_WEIGHT))
       (Number_mul interactionCount INTERACTION_WEIGHT)"

section \<open>Product service\<close>

text \<open>
  Every service function starts with \<open>schema.safeParse(input)\<close> of the zod library.
  The outcome of that call is the argument \<open>validation\<close>: \<open>Inl issues\<close> when the input
  fails the schema, \<open>Inr data\<close> with the parsed, typed data (schema defaults filled in)
  when it passes. \<open>getNextId()\<close> builds an identifier from \<open>Math.random\<close>; the
  identifier it returns is the argument \<open>newId\<close>.
\<close>

record CatalogRequestInput =
  rq_layoutType :: ProductLayout
  rq_sortCriteria :: ProductSortCriteria
  rq_navigationMode :: ProductNavigationMode
  rq_currentPage :: nat
  rq_itemsPerPage :: nat
  rq_loadedItemsCount :: nat

record CreateInput =
  c_name :: string
  c_code :: string
  c_mainImageUrl :: string
  c_price :: "rat option"
  c_availabilityStatus :: "ProductAvailabilityStatus option"
  c_isFeatured :: "bool option"
  c_isPromotional :: "bool option"
  c_promotionalPrice :: "rat option"

record UpdateInput =
  d_name :: string
  d_code :: string
  d_mainImageUrl :: string
  d_price :: "rat option"
  d_availabilityStatus :: ProductAvailabilityStatus
  d_isFeatured :: bool
  d_active :: bool
  d_isPromotional :: bool
  d_promotionalPrice :: "rat option"

datatype InteractionType = View | Click | Interaction

record InteractionInput =
  i_productId :: string
  i_interactionType :: InteractionType

record ProductListResponse =
  l_id :: string
  l_name :: string
  l_code :: string
  l_mainImageUrl :: string
  l_price :: "rat option"
  l_availabilityStatus :: ProductAvailabilityStatus
  l_isFeatured :: bool
  l_isNew :: bool
  l_isPromotional :: bool
  l_promotionalPrice :: "rat option"

record Pagination =
  pg_currentPage :: nat
  pg_itemsPerPage :: nat
  pg_totalPages :: nat
  pg_hasPrevious :: bool
  pg_hasNext :: bool

record InfiniteScroll =
  sc_loadedItemsCount :: nat
  sc_batchSize :: nat
  sc_hasMoreItems :: bool
  sc_isLoading :: bool

record ProductCatalogResponse =
  catalogTitle :: string
  totalProductsCount :: nat
  products :: "ProductListResponse list"
  pagination :: "Pagination option"
  infiniteScroll :: "InfiniteScroll option"

definition validationError :: "string list \<Rightarrow> error" where
  "validationError issues = ServiceError ''VALIDATION_ERROR'' ''Validation failed'' 400 (Some issues)"

definition invalidId :: "string list \<Rightarrow> error" where
  "invalidId issues = ServiceError ''VALIDATION_ERROR'' ''Invalid ID'' 400 (Some issues)"

text \<open>
  The comparators of \<open>sortProducts\<close>. \<open>localeCompare\<close> is the host's collation,
  a parameter. The sort criterion arrives validated, one of the seven values, so the
  \<open>default\<close> branch of the \<open>switch\<close> has no case here.
\<close>

definition priceAscCompare :: "ProductRecord \<Rightarrow> ProductRecord \<Rightarrow> rat" where
  "priceAscCompare a b =
     (case p_price a of
        None \<Rightarrow> 1
      | Some pa \<Rightarrow> (case p_price b of None \<Rightarrow> - 1 | Some pb \<Rightarrow> pa - pb))"

definition priceDescCompare :: "ProductRecord \<Rightarrow> ProductRecord \<Rightarrow> rat" where
  "priceDescCompare a b =
     (case p_price a of
        None \<Rightarrow> 1
      | Some pa \<Rightarrow> (case p_price b of None \<Rightarrow> - 1 | Some pb \<Rightarrow> pb - pa))"

definition sortProducts ::
  "(string \<Rightarrow> string \<Rightarrow> rat) \<Rightarrow> ProductRecord list \<Rightarrow> ProductSortCriteria \<Rightarrow> ProductRecord list" where
  "sortProducts localeCompare sortedCopy sortCriteria =
     (case sortCriteria of
        NAME_ASC \<Rightarrow> Array_sort (\<lambda>a b. localeCompare (p_name a) (p_name b)) sortedCopy
      | NAME_DESC \<Rightarrow> Array_sort (\<lambda>a b. localeCompare (p_name b) (p_name a)) sortedCopy
      | PRICE_ASC \<Rightarrow> Array_sort priceAscCompare sortedCopy
      | PRICE_DESC \<Rightarrow> Array_sort priceDescCompare sortedCopy
      | DATE_NEWEST \<Rightarrow> Array_sort (\<lambda>a b. of_int (p_createdDate b - p_createdDate a)) sortedCopy
      | DATE_OLDEST \<Rightarrow> Array_sort (\<lambda>a b. of_int (p_createdDate a - p_createdDate b)) sortedCopy
      | POPULARITY \<Rightarrow>
          Array_sort (\<lambda>a b. of_nat (p_popularityScore b) - of_nat (p_popularityScore a)) sortedCopy)"

definition mapToListResponse :: "ProductRecord \<Rightarrow> ProductListResponse" where
  "mapToListResponse product = \<lparr>
     l_id = p_id product,
     l_name = p_name product,
     l_code = p_code product,
     l_mainImageUrl = p_mainImageUrl product,
     l_price = p_price product,
     l_availabilityStatus = p_availabilityStatus product,
     l_isFeatured = p_isFeatured product,
     l_isNew = p_isNew product,
     l_isPromotional = p_isPromotional product,
     l_promotionalPrice = p_promotionalPrice product \<rparr>"

text \<open>The catalogue title; its two accented letters are written as their UTF-8 bytes.\<close>

definition theCatalogTitle :: string where
  "theCatalogTitle =
     ''Cat'' @ [CHR 0xC3, CHR 0xA1] @ ''logo Lozorio M'' @ [CHR 0xC3, CHR 0xB3] @ ''veis''"

text \<open>\<open>Math.ceil(totalCount / itemsPerPage)\<close> on two counts.\<close>

definition ceilDiv :: "nat \<Rightarrow> nat \<Rightarrow> nat" where
  "ceilDiv totalCount itemsPerPage = nat \<lceil>(of_nat totalCount :: rat) / of_nat itemsPerPage\<rceil>"

text \<open>\<open>x || 1\<close> on a number.\<close>

definition orOne :: "nat \<Rightarrow> nat" where
  "orOne x = (if x = 0 then 1 else x)"

definition productCatalog ::
  "(string \<Rightarrow> string \<Rightarrow> rat) \<Rightarrow> int \<Rightarrow> string list + CatalogRequestInput \<Rightarrow> ProductStore
     \<Rightarrow> error + ProductCatalogResponse" where
  "productCatalog localeCompare now validation s =
     (case validation of
        Inl issues \<Rightarrow> Inl (validationError issues)
      | Inr params \<Rightarrow>
          (let allProducts0 = getAll s;
               allProducts1 = map (\<lambda>product. product \<lparr> p_isNew := isProductNew now (p_createdDate product) \<rparr>)
                                allProducts0;
               allProducts = sortProducts localeCompare allProducts1 (rq_sortCriteria params);
               totalCount = length allProducts;
               response = \<lparr> catalogTitle = theCatalogTitle, totalProductsCount = totalCount,
                            products = [], pagination = None, infiniteScroll = None \<rparr>
           in if rq_navigationMode params = PAGINATION then
                (let totalPages = ceilDiv totalCount (rq_itemsPerPage params);
                     currentPage = min (rq_currentPage params) (orOne totalPages);
                     startIndex = (currentPage - 1) * rq_itemsPerPage params;
                     endIndex = startIndex + rq_itemsPerPage params
                 in Inr (response \<lparr>
                      products := map mapToListResponse (slice allProducts startIndex endIndex),
                      pagination := Some \<lparr>
                        pg_currentPage = currentPage,
                        pg_itemsPerPage = rq_itemsPerPage params,
                        pg_totalPages = orOne totalPages,
                        pg_hasPrevious = (currentPage > 1),
                        pg_hasNext = (currentPage < totalPages) \<rparr> \<rparr>))
              else
                (let startIndex = rq_loadedItemsCount params;
                     endIndex = startIndex + BATCH_SIZE
                 in Inr (response \<lparr>
                      products := map mapToListResponse (slice allProducts startIndex endIndex),
                      infiniteScroll := Some \<lparr>
                        sc_loadedItemsCount = min endIndex totalCount,
                        sc_batchSize = BATCH_SIZE,
                        sc_hasMoreItems = (endIndex < totalCount),
                        sc_isLoading = False \<rparr> \<rparr>))))"

definition productCreate ::
  "int \<Rightarrow> string \<Rightarrow> string list + CreateInput \<Rightarrow> ProductStore
     \<Rightarrow> (error + ProductRecord) \<times> ProductStore" where
  "productCreate now newId validation s =
     (case validation of
        Inl issues \<Rightarrow> (Inl (validationError issues), s)
      | Inr params \<Rightarrow>
          if codeExists s (c_code params) None
          then (Inl (ServiceError ''DUPLICATE_CODE'' ''Product code already exists'' 409 None), s)
          else
            (let newProduct = \<lparr>
                   p_id = newId,
                   p_name = c_name params,
                   p_code = c_code params,
                   p_mainImageUrl = c_mainImageUrl params,
                   p_price = c_price params,
                   p_availabilityStatus = orElse (c_availabilityStatus params) AVAILABLE,
                   p_isFeatured = orElse (c_isFeatured params) False,
                   p_isNew = True,
                   p_createdDate = now,
                   p_isPromotional = orElse (c_isPromotional params) False,
                   p_promotionalPrice = c_promotionalPrice params,
                   p_popularityScore = 0,
                   p_viewCount = 0,
                   p_clickCount = 0,
                   p_interactionCount = 0,
                   p_lastPopularityUpdate = now,
                   p_active = True \<rparr>
             in case add s newProduct of
                  Inl e \<Rightarrow> (Inl e, s)
                | Inr s' \<Rightarrow> (Inr newProduct, s')))"

definition productGet ::
  "int \<Rightarrow> string list + string \<Rightarrow> ProductStore \<Rightarrow> error + ProductRecord" where
  "productGet now validation s =
     (case validation of
        Inl issues \<Rightarrow> Inl (invalidId issues)
      | Inr i \<Rightarrow>
          (case getById s i of
             None \<Rightarrow> Inl (ServiceError ''NOT_FOUND'' ''Product not found'' 404 None)
           | Some r \<Rightarrow> Inr (r \<lparr> p_isNew := isProductNew now (p_createdDate r) \<rparr>)))"

definition productUpdate ::
  "int \<Rightarrow> string list + string \<Rightarrow> string list + UpdateInput \<Rightarrow> ProductStore
     \<Rightarrow> (error + ProductRecord) \<times> ProductStore" where
  "productUpdate now paramsValidation bodyValidation s =
     (case paramsValidation of
        Inl issues \<Rightarrow> (Inl (invalidId issues), s)
      | Inr i \<Rightarrow>
          (case bodyValidation of
             Inl issues \<Rightarrow> (Inl (validationError issues), s)
           | Inr updateData \<Rightarrow>
               (case getById s i of
                  None \<Rightarrow> (Inl (ServiceError ''NOT_FOUND'' ''Product not found'' 404 None), s)
                | Some existing \<Rightarrow>
                    if d_code updateData \<noteq> p_code existing \<and> codeExists s (d_code updateData) (Some i)
                    then (Inl (ServiceError ''DUPLICATE_CODE'' ''Product code already exists'' 409 None), s)
                    else
                      (case update s i (emptyPartial \<lparr>
                              u_name := Some (d_name updateData),
                              u_code := Some (d_code updateData),
                              u_mainImageUrl := Some (d_mainImageUrl updateData),
                              u_price := Some (d_price updateData),
                              u_availabilityStatus := Some (d_availabilityStatus updateData),
                              u_isFeatured := Some (d_isFeatured updateData),
                              u_active := Some (d_active updateData),
                              u_isPromotional := Some (d_isPromotional updateData),
                              u_promotionalPrice := Some (d_promotionalPrice updateData) \<rparr>) of
                         (None, s') \<Rightarrow> (Inl (Error ''Cannot read properties of undefined''), s')
                       | (Some updated, s') \<Rightarrow>
                           (Inr (updated \<lparr> p_isNew := isProductNew now (p_createdDate updated) \<rparr>), s')))))"

definition productDelete ::
  "string list + string \<Rightarrow> ProductStore \<Rightarrow> (error + string) \<times> ProductStore" where
  "productDelete validation s =
     (case validation of
        Inl issues \<Rightarrow> (Inl (invalidId issues), s)
      | Inr i \<Rightarrow>
          if \<not> exists s i
          then (Inl (ServiceError ''NOT_FOUND'' ''Product not found'' 404 None), s)
          else (Inr ''Product deleted successfully'', snd (delete s i)))"

definition productInteraction ::
  "string list + InteractionInput \<Rightarrow> ProductStore \<Rightarrow> (error + string) \<times> ProductStore" where
  "productInteraction validation s =
     (case validation of
        Inl issues \<Rightarrow> (Inl (validationError issues), s)
      | Inr body \<Rightarrow>
          (case getById s (i_productId body) of
             None \<Rightarrow> (Inl (ServiceError ''NOT_FOUND'' ''Product not found'' 404 None), s)
           | Some product \<Rightarrow>
               (let updates0 =
                      (case i_interactionType body of
                         View \<Rightarrow> emptyPartial \<lparr> u_viewCount := Some (Number_add (p_viewCount product) 1) \<rparr>
                       | Click \<Rightarrow> emptyPartial \<lparr> u_clickCount := Some (Number_add (p_clickCount product) 1) \<rparr>
                       | Interaction \<Rightarrow>
                           emptyPartial \<lparr> u_interactionCount := Some (Number_add (p_interactionCount product) 1) \<rparr>);
                    updates = updates0 \<lparr> u_popularityScore := Some (calculatePopularityScore
                      (orElse (u_viewCount updates0) (p_viewCount product))
                      (orElse (u_clickCount updates0) (p_clickCount product))
                      (orElse (u_interactionCount updates0) (p_interactionCount product))) \<rparr>
                in (Inr ''Interaction recorded successfully'', snd (update s (i_productId body) updates)))))"

section \<open>Gallery constants and records\<close>

datatype GalleryDisplayMode = PAGE | MODAL

datatype ImageCategory = FRONTAL | LATERAL | DETALHES | AMBIENTE | PERSPECTIVA

datatype VariationType = COR | ACABAMENTO | MATERIAL | TEXTURA

definition MAX_IMAGES :: nat where "MAX_IMAGES = 50"
definition INITIAL_IMAGE_INDEX :: nat where "INITIAL_IMAGE_INDEX = 1"
definition DISPLAY_MODE :: GalleryDisplayMode where "DISPLAY_MODE = PAGE"
definition SHOW_CAPTION :: bool where "SHOW_CAPTION = True"

record GalleryRecord =
  g_id :: string
  g_productId :: string
  g_mainImageUrl :: string
  g_totalImages :: nat
  g_currentImageIndex :: nat
  g_currentVariationId :: "string option"
  g_displayMode :: GalleryDisplayMode

record ResolutionUrls =
  thumbnail :: string
  medium :: string
  large :: string
  original :: string

record GalleryImageRecord =
  img_id :: string
  img_galleryId :: string
  img_thumbnailUrl :: string
  img_fullSizeUrl :: string
  img_displayOrder :: int
  img_isActive :: bool
  img_imageCategory :: ImageCategory
  img_lazyLoadPriority :: nat
  img_captionText :: "string option"
  img_detailedDescription :: "string option"
  img_showCaption :: bool
  img_resolutionUrls :: ResolutionUrls

record ProductVariationRecord =
  v_id :: string
  v_productId :: string
  v_variationName :: string
  v_variationType :: VariationType
  v_colorCode :: "string option"
  v_isDefault :: bool

text \<open>
  \<open>Partial<GalleryRecord>\<close> and \<open>Partial<GalleryImageRecord>\<close>, with the fields the
  service ever sets.
\<close>

record GalleryPartial =
  gu_mainImageUrl :: "string option"

record GalleryImagePartial =
  iu_displayOrder :: "int option"
  iu_imageCategory :: "ImageCategory option"
  iu_captionText :: "string option option"
  iu_detailedDescription :: "string option option"
  iu_showCaption :: "bool option"
  iu_lazyLoadPriority :: "nat option"

section \<open>Gallery store\<close>

text \<open>
  The \<open>galleries\<close> map holds references to gallery objects, and \<open>addImage\<close> and
  \<open>deleteImage\<close> assign to a field of the object they looked up, while the service
  still holds the reference it got from \<open>getById\<close>. So gallery objects live in an
  explicit heap: \<open>objects\<close> is the list of all gallery objects ever created, a
  reference is an index into it, and the map stores references. Image and variation
  records are never assigned to after they are stored (\<open>updateImage\<close> stores a fresh
  copy), so their maps hold the values.
\<close>

type_synonym ref = nat

record GalleryStore =
  objects :: "GalleryRecord list"
  galleries :: "(string, ref) jsmap"
  images :: "(string, GalleryImageRecord) jsmap"
  variations :: "(string, ProductVariationRecord) jsmap"

definition emptyGalleryStore :: GalleryStore where
  "emptyGalleryStore = \<lparr> objects = [], galleries = [], images = [], variations = [] \<rparr>"

definition deref :: "GalleryStore \<Rightarrow> ref \<Rightarrow> GalleryRecord" where
  "deref s a = objects s ! a"

text \<open>Creating an object (a literal or a spread) takes the next free index.\<close>

definition alloc :: "GalleryStore \<Rightarrow> GalleryRecord \<Rightarrow> ref \<times> GalleryStore" where
  "alloc s g = (length (objects s), s \<lparr> objects := objects s @ [g] \<rparr>)"

definition getByProductId :: "GalleryStore \<Rightarrow> string \<Rightarrow> ref option" where
  "getByProductId s productId =
     List.find (\<lambda>a. g_productId (deref s a) = productId) (Map_values (galleries s))"

definition getById_gallery :: "GalleryStore \<Rightarrow> string \<Rightarrow> ref option" where
  "getById_gallery s i = Map_get (galleries s) i"

definition addGallery :: "GalleryStore \<Rightarrow> ref \<Rightarrow> GalleryStore" where
  "addGallery s gallery = s \<lparr> galleries := Map_set (g_id (deref s gallery)) gallery (galleries s) \<rparr>"

definition spreadGallery :: "GalleryRecord \<Rightarrow> GalleryPartial \<Rightarrow> GalleryRecord" where
  "spreadGallery existing d =
     existing \<lparr> g_mainImageUrl := orElse (gu_mainImageUrl d) (g_mainImageUrl existing) \<rparr>"

definition updateGallery :: "GalleryStore \<Rightarrow> string \<Rightarrow> GalleryPartial \<Rightarrow> ref option \<times> GalleryStore" where
  "updateGallery s i d =
     (case Map_get (galleries s) i of
        None \<Rightarrow> (None, s)
      | Some existing \<Rightarrow>
          (case alloc s (spreadGallery (deref s existing) d) of
             (updated, s1) \<Rightarrow> (Some updated, s1 \<lparr> galleries := Map_set i updated (galleries s1) \<rparr>)))"

definition imageCompare :: "GalleryImageRecord \<Rightarrow> GalleryImageRecord \<Rightarrow> rat" where
  "imageCompare a b =
     (if img_lazyLoadPriority a \<noteq> img_lazyLoadPriority b
      then of_nat (img_lazyLoadPriority a) - of_nat (img_lazyLoadPriority b)
      else of_int (img_displayOrder a - img_displayOrder b))"

text \<open>The second parameter, \<open>variationId\<close>, is accepted and not used.\<close>

definition getImagesByGalleryId ::
  "GalleryStore \<Rightarrow> string \<Rightarrow> string option \<Rightarrow> GalleryImageRecord list" where
  "getImagesByGalleryId s galleryId variationId =
     (let allImages = filter (\<lambda>img. img_galleryId img = galleryId) (Map_values (images s))
      in Array_sort imageCompare allImages)"

definition getImageById :: "GalleryStore \<Rightarrow> string \<Rightarrow> GalleryImageRecord option" where
  "getImageById s i = Map_get (images s) i"

definition addImage ::
  "GalleryStore \<Rightarrow> GalleryImageRecord \<Rightarrow> (error + GalleryImageRecord) \<times> GalleryStore" where
  "addImage s newImg =
     (case Map_get (galleries s) (img_galleryId newImg) of
        None \<Rightarrow> (Inl (Error ''Gallery not found''), s)
      | Some gallery \<Rightarrow>
          (let currentImages = getImagesByGalleryId s (img_galleryId newImg) None
           in if length currentImages \<ge> MAX_IMAGES
              then (Inl (Error ''Maximum images limit reached for this gallery''), s)
              else
                (let s1 = s \<lparr> images := Map_set (img_id newImg) newImg (images s) \<rparr>;
                     s2 = s1 \<lparr> objects := (objects s1)
                            [gallery := (deref s1 gallery) \<lparr> g_totalImages := length currentImages + 1 \<rparr>] \<rparr>;
                     s3 = s2 \<lparr> galleries := Map_set (g_id (deref s2 gallery)) gallery (galleries s2) \<rparr>
                 in (Inr newImg, s3))))"

definition spreadImage :: "GalleryImageRecord \<Rightarrow> GalleryImagePartial \<Rightarrow> GalleryImageRecord" where
  "spreadImage existing d = existing \<lparr>
     img_displayOrder := orElse (iu_displayOrder d) (img_displayOrder existing),
     img_imageCategory := orElse (iu_imageCategory d) (img_imageCategory existing),
     img_captionText := orElse (iu_captionText d) (img_captionText existing),
     img_detailedDescription := orElse (iu_detailedDescription d) (img_detailedDescription existing),
     img_showCaption := orElse (iu_showCaption d) (img_showCaption existing),
     img_lazyLoadPriority := orElse (iu_lazyLoadPriority d) (img_lazyLoadPriority existing) \<rparr>"

definition updateImage ::
  "GalleryStore \<Rightarrow> string \<Rightarrow> GalleryImagePartial \<Rightarrow> GalleryImageRecord option \<times> GalleryStore" where
  "updateImage s i d =
     (case Map_get (images s) i of
        None \<Rightarrow> (None, s)
      | Some existing \<Rightarrow>
          (let updated = spreadImage existing d
           in (Some updated, s \<lparr> images := Map_set i updated (images s) \<rparr>)))"

definition deleteImage :: "GalleryStore \<Rightarrow> string \<Rightarrow> bool \<times> GalleryStore" where
  "deleteImage s i =
     (case Map_get (images s) i of
        None \<Rightarrow> (False, s)
      | Some found \<Rightarrow>
          (let s1 = s \<lparr> images := Map_delete i (images s) \<rparr>
           in case Map_get (galleries s1) (img_galleryId found) of
                None \<Rightarrow> (True, s1)
              | Some gallery \<Rightarrow>
                  (let currentImages = getImagesByGalleryId s1 (img_galleryId found) None;
                       s2 = s1 \<lparr> objects := (objects s1)
                              [gallery := (deref s1 gallery) \<lparr> g_totalImages := length currentImages \<rparr>] \<rparr>;
                       s3 = s2 \<lparr> galleries := Map_set (g_id (deref s2 gallery)) gallery (galleries s2) \<rparr>
                   in (True, s3))))"

definition getVariationsByProductId :: "GalleryStore \<Rightarrow> string \<Rightarrow> ProductVariationRecord list" where
  "getVariationsByProductId s productId =
     filter (\<lambda>v. v_productId v = productId) (Map_values (variations s))"

definition addVariation :: "GalleryStore \<Rightarrow> ProductVariationRecord \<Rightarrow> GalleryStore" where
  "addVariation s variation = s \<lparr> variations := Map_set (v_id variation) variation (variations s) \<rparr>"

text \<open>Every category has an entry in \<open>priorityMap\<close>, none of them 0, so \<open>|| 5\<close> never applies.\<close>

fun calculateLazyLoadPriority :: "ImageCategory \<Rightarrow> nat" where
  "calculateLazyLoadPriority FRONTAL = 1"
| "calculateLazyLoadPriority LATERAL = 2"
| "calculateLazyLoadPriority DETALHES = 3"
| "calculateLazyLoadPriority AMBIENTE = 4"
| "calculateLazyLoadPriority PERSPECTIVA = 5"

section \<open>Gallery service\<close>

record GalleryGetInput =
  gg_productId :: string
  gg_variationId :: "string option"

record GalleryImageCreateInput =
  ci_galleryId :: string
  ci_thumbnailUrl :: string
  ci_fullSizeUrl :: string
  ci_displayOrder :: int
  ci_imageCategory :: ImageCategory
  ci_captionText :: "string option"
  ci_detailedDescription :: "string option"
  ci_resolutionUrls :: ResolutionUrls

record GalleryImageUpdateInput =
  ui_displayOrder :: "int option"
  ui_imageCategory :: "ImageCategory option"
  ui_captionText :: "string option option"
  ui_detailedDescription :: "string option option"
  ui_showCaption :: "bool option"

record ProductVariationCreateInput =
  vi_productId :: string
  vi_variationName :: string
  vi_variationType :: VariationType
  vi_colorCode :: "string option"
  vi_isDefault :: "bool option"

record GalleryGetResponse =
  r_gallery :: GalleryRecord
  r_images :: "GalleryImageRecord list"
  r_variations :: "ProductVariationRecord list"

text \<open>\<open>variationId || null\<close>: an absent or empty string gives \<open>null\<close>.\<close>

definition orNull :: "string option \<Rightarrow> string option" where
  "orNull v = (case v of None \<Rightarrow> None | Some x \<Rightarrow> if x = [] then None else Some x)"

definition galleryGet ::
  "string \<Rightarrow> string list + GalleryGetInput \<Rightarrow> GalleryStore
     \<Rightarrow> (error + GalleryGetResponse) \<times> GalleryStore" where
  "galleryGet newId validation s =
     (case validation of
        Inl issues \<Rightarrow> (Inl (validationError issues), s)
      | Inr query \<Rightarrow>
          (case (case getByProductId s (gg_productId query) of
                   Some found \<Rightarrow> (found, s)
                 | None \<Rightarrow>
                     (case alloc s \<lparr>
                             g_id = newId,
                             g_productId = gg_productId query,
                             g_mainImageUrl = [],
                             g_totalImages = 0,
                             g_currentImageIndex = INITIAL_IMAGE_INDEX,
                             g_currentVariationId = orNull (gg_variationId query),
                             g_displayMode = DISPLAY_MODE \<rparr> of
                        (created, s1) \<Rightarrow> (created, addGallery s1 created))) of
             (gallery, s2) \<Rightarrow>
               (let imgs = getImagesByGalleryId s2 (g_id (deref s2 gallery)) (gg_variationId query);
                    vars = getVariationsByProductId s2 (gg_productId query)
                in (Inr \<lparr> r_gallery = deref s2 gallery, r_images = imgs, r_variations = vars \<rparr>, s2))))"

definition galleryImageCreate ::
  "string \<Rightarrow> string list + GalleryImageCreateInput \<Rightarrow> GalleryStore
     \<Rightarrow> (error + GalleryImageRecord) \<times> GalleryStore" where
  "galleryImageCreate newId validation s =
     (case validation of
        Inl issues \<Rightarrow> (Inl (validationError issues), s)
      | Inr params \<Rightarrow>
          (case getById_gallery s (ci_galleryId params) of
             None \<Rightarrow> (Inl (ServiceError ''NOT_FOUND'' ''Gallery not found'' 404 None), s)
           | Some gallery \<Rightarrow>
               (let lazyLoadPriority = calculateLazyLoadPriority (ci_imageCategory params);
                    newImage = \<lparr>
                      img_id = newId,
                      img_galleryId = ci_galleryId params,
                      img_thumbnailUrl = ci_thumbnailUrl params,
                      img_fullSizeUrl = ci_fullSizeUrl params,
                      img_displayOrder = ci_displayOrder params,
                      img_isActive = False,
                      img_imageCategory = ci_imageCategory params,
                      img_lazyLoadPriority = lazyLoadPriority,
                      img_captionText = ci_captionText params,
                      img_detailedDescription = ci_detailedDescription params,
                      img_showCaption = SHOW_CAPTION,
                      img_resolutionUrls = ci_resolutionUrls params \<rparr>
                in case addImage s newImage of
                     (Inr stored, s1) \<Rightarrow>
                       (if g_totalImages (deref s1 gallery) = 0
                        then (Inr newImage,
                              snd (updateGallery s1 (g_id (deref s1 gallery))
                                     \<lparr> gu_mainImageUrl = Some (ci_fullSizeUrl params) \<rparr>))
                        else (Inr newImage, s1))
                   | (Inl e, s1) \<Rightarrow>
                       (if String_includes (error_message e) ''Maximum images limit''
                        then (Inl (ServiceError ''MAX_IMAGES_REACHED'' (error_message e) 400 None), s1)
                        else (Inl e, s1)))))"

definition galleryImageUpdate ::
  "string list + string \<Rightarrow> string list + GalleryImageUpdateInput \<Rightarrow> GalleryStore
     \<Rightarrow> (error + GalleryImageRecord) \<times> GalleryStore" where
  "galleryImageUpdate paramsValidation bodyValidation s =
     (case paramsValidation of
        Inl issues \<Rightarrow> (Inl (invalidId issues), s)
      | Inr i \<Rightarrow>
          (case bodyValidation of
             Inl issues \<Rightarrow> (Inl (validationError issues), s)
           | Inr updateData \<Rightarrow>
               (case getImageById s i of
                  None \<Rightarrow> (Inl (ServiceError ''NOT_FOUND'' ''Image not found'' 404 None), s)
                | Some existing \<Rightarrow>
                    (let updates0 = \<lparr>
                           iu_displayOrder = ui_displayOrder updateData,
                           iu_imageCategory = ui_imageCategory updateData,
                           iu_captionText = ui_captionText updateData,
                           iu_detailedDescription = ui_detailedDescription updateData,
                           iu_showCaption = ui_showCaption updateData,
                           iu_lazyLoadPriority = None \<rparr>;
                         updates =
                           (case ui_imageCategory updateData of
                              None \<Rightarrow> updates0
                            | Some category \<Rightarrow>
                                updates0 \<lparr> iu_lazyLoadPriority := Some (calculateLazyLoadPriority category) \<rparr>)
                     in case updateImage s i updates of
                          (Some updated, s1) \<Rightarrow> (Inr updated, s1)
                        | (None, s1) \<Rightarrow> (Inl (Error ''updated is undefined''), s1)))))"

definition galleryImageDelete ::
  "string list + string \<Rightarrow> GalleryStore \<Rightarrow> (error + string) \<times> GalleryStore" where
  "galleryImageDelete validation s =
     (case validation of
        Inl issues \<Rightarrow> (Inl (invalidId issues), s)
      | Inr i \<Rightarrow>
          (case getImageById s i of
             None \<Rightarrow> (Inl (ServiceError ''NOT_FOUND'' ''Image not found'' 404 None), s)
           | Some found \<Rightarrow> (Inr ''Image deleted successfully'', snd (deleteImage s i))))"

definition productVariationCreate ::
  "string \<Rightarrow> string list + ProductVariationCreateInput \<Rightarrow> GalleryStore
     \<Rightarrow> (error + ProductVariationRecord) \<times> GalleryStore" where
  "productVariationCreate newId validation s =
     (case validation of
        Inl issues \<Rightarrow> (Inl (validationError issues), s)
      | Inr params \<Rightarrow>
          (let newVariation = \<lparr>
                 v_id = newId,
                 v_productId = vi_productId params,
                 v_variationName = vi_variationName params,
                 v_variationType = vi_variationType params,
                 v_colorCode = vi_colorCode params,
                 v_isDefault = orElse (vi_isDefault params) False \<rparr>
           in (Inr newVariation, addVariation s newVariation)))"

section \<open>Notions the properties are stated with\<close>

text \<open>
  The list \<open>productCatalog\<close> pages through: the active products, \<open>isNew\<close> recomputed,
  sorted by the requested criterion.
\<close>

definition catalogList ::
  "(string \<Rightarrow> string \<Rightarrow> rat) \<Rightarrow> int \<Rightarrow> ProductSortCriteria \<Rightarrow> ProductStore \<Rightarrow> ProductRecord list" where
  "catalogList localeCompare now sortCriteria s =
     sortProducts localeCompare
       (map (\<lambda>product. product \<lparr> p_isNew := isProductNew now (p_createdDate product) \<rparr>) (getAll s))
       sortCriteria"

definition nullCount :: "ProductRecord list \<Rightarrow> nat" where
  "nullCount xs = length (filter (\<lambda>r. p_price r = None) xs)"

definition nonNullPrices :: "ProductRecord list \<Rightarrow> rat list" where
  "nonNullPrices xs = List.map_filter p_price xs"

text \<open>The number of stored images that belong to a gallery, and the gallery invariant.\<close>

definition liveImageCount :: "GalleryStore \<Rightarrow> string \<Rightarrow> nat" where
  "liveImageCount s galleryId =
     length (filter (\<lambda>img. img_galleryId img = galleryId) (Map_values (images s)))"

definition totalImagesConsistent :: "GalleryStore \<Rightarrow> bool" where
  "totalImagesConsistent s =
     list_all (\<lambda>a. g_totalImages (deref s a) = liveImageCount s (g_id (deref s a)))
       (Map_values (galleries s))"

text \<open>
  The states the gallery service can bring the store into, starting from the empty
  store. \<open>getNextId\<close> draws a random version-4 UUID; the states are those in which
  every draw gave an identifier not yet used as a key of the map it is stored in.
\<close>

inductive reachableG :: "GalleryStore \<Rightarrow> bool" where
  rg_init: "reachableG emptyGalleryStore"
| rg_get: "reachableG s \<Longrightarrow> newId \<notin> fst ` set (galleries s)
     \<Longrightarrow> reachableG (snd (galleryGet newId validation s))"
| rg_create: "reachableG s \<Longrightarrow> newId \<notin> fst ` set (images s)
     \<Longrightarrow> reachableG (snd (galleryImageCreate newId validation s))"
| rg_update: "reachableG s \<Longrightarrow> reachableG (snd (galleryImageUpdate paramsValidation bodyValidation s))"
| rg_delete: "reachableG s \<Longrightarrow> reachableG (snd (galleryImageDelete validation s))"
| rg_variation: "reachableG s \<Longrightarrow> reachableG (snd (productVariationCreate newId validation s))"

definition wfG :: "GalleryStore \<Rightarrow> bool" where
  "wfG s \<longleftrightarrow>
     distinct (map fst (galleries s)) \<and> distinct (map snd (galleries s)) \<and>
     distinct (map fst (images s)) \<and>
     (\<forall>(k, a) \<in> set (galleries s). a < length (objects s) \<and> g_id (objects s ! a) = k
        \<and> g_totalImages (objects s ! a) = liveImageCount s k) \<and>
     (\<forall>(i, img) \<in> set (images s). img_galleryId img \<in> fst ` set (galleries s))"

text \<open>The states the product service can bring the product store into.\<close>

inductive reachableP :: "ProductStore \<Rightarrow> bool" where
  rp_init: "reachableP emptyProductStore"
| rp_create: "reachableP s \<Longrightarrow> reachableP (snd (productCreate now newId validation s))"
| rp_update: "reachableP s \<Longrightarrow> reachableP (snd (productUpdate now paramsValidation bodyValidation s))"
| rp_delete: "reachableP s \<Longrightarrow> reachableP (snd (productDelete validation s))"
| rp_interaction: "reachableP s \<Longrightarrow> reachableP (snd (productInteraction validation s))"

definition wfP :: "ProductStore \<Rightarrow> bool" where
  "wfP s \<longleftrightarrow>
     distinct (map fst (records s)) \<and>
     (\<forall>(k, r) \<in> set (records s). p_id r = k) \<and>
     (\<forall>(k, r) \<in> set (records s). \<forall>(k', r') \<in> set (records s).
        p_active r \<and> p_active r' \<and> p_code r = p_code r' \<longrightarrow> k = k')"

section \<open>Sample data\<close>

text \<open>Identifiers in UUID shape: a fixed prefix and a number in twelve decimal digits.\<close>

fun decimal :: "nat \<Rightarrow> nat \<Rightarrow> string" where
  "decimal 0 n = []"
| "decimal (Suc k) n = decimal k (n div 10) @ [char_of (48 + n mod 10)]"

definition sampleId :: "nat \<Rightarrow> string" where
  "sampleId i = ''00000000-0000-4000-8000-'' @ decimal 12 i"

text \<open>The \<open>i\<close>-th sample product: its own identifier and its own code \<open>LZ-dddd\<close>.\<close>

definition sampleProduct :: "nat \<Rightarrow> rat option \<Rightarrow> bool \<Rightarrow> ProductRecord" where
  "sampleProduct i price act = \<lparr>
     p_id = sampleId i, p_name = ''Sofa'', p_code = ''LZ-'' @ decimal 4 i,
     p_mainImageUrl = ''https://cdn.example.com/sofa.jpg'', p_price = price,
     p_availabilityStatus = AVAILABLE, p_isFeatured = False, p_isNew = True,
     p_createdDate = 0, p_isPromotional = False, p_promotionalPrice = None,
     p_popularityScore = 0, p_viewCount = 0, p_clickCount = 0, p_interactionCount = 0,
     p_lastPopularityUpdate = 0, p_active = act \<rparr>"

text \<open>A store of \<open>n\<close> records, all active or all soft-deleted.\<close>

definition sampleProductStore :: "nat \<Rightarrow> bool \<Rightarrow> ProductStore" where
  "sampleProductStore n act =
     \<lparr> records = map (\<lambda>i. (sampleId i, sampleProduct i None act)) [0..<n] \<rparr>"

definition sampleCatalogRequest :: "ProductNavigationMode \<Rightarrow> nat \<Rightarrow> nat \<Rightarrow> nat \<Rightarrow> CatalogRequestInput" where
  "sampleCatalogRequest mode page perPage loaded = \<lparr>
     rq_layoutType = GRID, rq_sortCriteria = NAME_ASC, rq_navigationMode = mode,
     rq_currentPage = page, rq_itemsPerPage = perPage, rq_loadedItemsCount = loaded \<rparr>"

definition sampleCreateInput :: "string \<Rightarrow> CreateInput" where
  "sampleCreateInput c = \<lparr>
     c_name = ''Mesa'', c_code = c, c_mainImageUrl = ''https://cdn.example.com/mesa.jpg'',
     c_price = Some 100, c_availabilityStatus = None, c_isFeatured = None,
     c_isPromotional = None, c_promotionalPrice = None \<rparr>"

definition sampleUpdateInput :: "string \<Rightarrow> UpdateInput" where
  "sampleUpdateInput c = \<lparr>
     d_name = ''Sofa novo'', d_code = c, d_mainImageUrl = ''https://cdn.example.com/sofa2.jpg'',
     d_price = Some 250, d_availabilityStatus = ON_REQUEST, d_isFeatured = True,
     d_active = True, d_isPromotional = False, d_promotionalPrice = None \<rparr>"

definition sampleUrls :: ResolutionUrls where
  "sampleUrls = \<lparr> thumbnail = ''https://cdn.example.com/t.jpg'',
     medium = ''https://cdn.example.com/m.jpg'', large = ''https://cdn.example.com/l.jpg'',
     original = ''https://cdn.example.com/o.jpg'' \<rparr>"

definition sampleGalleryId :: string where
  "sampleGalleryId = ''aaaaaaaa-aaaa-4aaa-8aaa-aaaaaaaaaaaa''"

definition sampleProductId :: string where
  "sampleProductId = ''bbbbbbbb-bbbb-4bbb-8bbb-bbbbbbbbbbbb''"

definition sampleNewId :: string where
  "sampleNewId = ''cccccccc-cccc-4ccc-8ccc-cccccccccccc''"

definition sampleImage :: "string \<Rightarrow> GalleryImageRecord" where
  "sampleImage i = \<lparr>
     img_id = i, img_galleryId = sampleGalleryId,
     img_thumbnailUrl = ''https://cdn.example.com/t.jpg'',
     img_fullSizeUrl = ''https://cdn.example.com/f.jpg'',
     img_displayOrder = 1, img_isActive = False, img_imageCategory = FRONTAL,
     img_lazyLoadPriority = 1, img_captionText = None, img_detailedDescription = None,
     img_showCaption = True, img_resolutionUrls = sampleUrls \<rparr>"

definition sampleImageInput :: "string \<Rightarrow> GalleryImageCreateInput" where
  "sampleImageInput url = \<lparr>
     ci_galleryId = sampleGalleryId,
     ci_thumbnailUrl = ''https://cdn.example.com/t.jpg'',
     ci_fullSizeUrl = url,
     ci_displayOrder = 1, ci_imageCategory = FRONTAL,
     ci_captionText = None, ci_detailedDescription = None,
     ci_resolutionUrls = sampleUrls \<rparr>"

text \<open>A store with one gallery that holds \<open>n\<close> images.\<close>

definition sampleGalleryStore :: "nat \<Rightarrow> GalleryStore" where
  "sampleGalleryStore n = \<lparr>
     objects = [\<lparr> g_id = sampleGalleryId, g_productId = sampleProductId,
                  g_mainImageUrl = [], g_totalImages = n,
                  g_currentImageIndex = 1, g_currentVariationId = None,
                  g_displayMode = PAGE \<rparr>],
     galleries = [(sampleGalleryId, 0)],
     images = map (\<lambda>i. (sampleId i, sampleImage (sampleId i))) [0..<n],
     variations = [] \<rparr>"

text \<open>
  The first two requests a fresh server can get for a product's gallery: reading the
  gallery (which creates it), then adding its first image.
\<close>

definition firstGet :: "(error + GalleryGetResponse) \<times> GalleryStore" where
  "firstGet =
     galleryGet sampleGalleryId
       (Inr \<lparr> gg_productId = sampleProductId, gg_variationId = None \<rparr>) emptyGalleryStore"

definition firstImage :: "(error + GalleryImageRecord) \<times> GalleryStore" where
  "firstImage =
     galleryImageCreate sampleNewId (Inr (sampleImageInput ''https://cdn.example.com/first.jpg''))
       (snd firstGet)"




definition threePrices :: "ProductRecord list" where
  "threePrices = [sampleProduct 0 None True,
                  sampleProduct 1 (Some 10) True,
                  sampleProduct 2 (Some 5) True]"

text \<open>The record \<open>galleryImageCreate\<close> builds from a request and the drawn identifier.\<close>

definition newImageOf :: "string \<Rightarrow> GalleryImageCreateInput \<Rightarrow> GalleryImageRecord" where
  "newImageOf newId params = \<lparr>
                      img_id = newId,
                      img_galleryId = ci_galleryId params,
                      img_thumbnailUrl = ci_thumbnailUrl params,
                      img_fullSizeUrl = ci_fullSizeUrl params,
                      img_displayOrder = ci_displayOrder params,
                      img_isActive = False,
                      img_imageCategory = ci_imageCategory params,
                      img_lazyLoadPriority = calculateLazyLoadPriority (ci_imageCategory params),
                      img_captionText = ci_captionText params,
                      img_detailedDescription = ci_detailedDescription params,
                      img_showCaption = True,
                      img_resolutionUrls = ci_resolutionUrls params \<rparr>"

text \<open>The product store after one successful \<open>productCreate\<close> on the empty store.\<close>

definition createdStore :: ProductStore where
  "createdStore =
     snd (productCreate 0 sampleProductId (Inr (sampleCreateInput ''LZ-0001'')) emptyProductStore)"

text \<open>The request that creates the \<open>i\<close>-th sample product.\<close>

definition sampleProductInput :: "nat \<Rightarrow> CreateInput" where
  "sampleProductInput i = \<lparr>
     c_name = ''Sofa'', c_code = ''LZ-'' @ decimal 4 i,
     c_mainImageUrl = ''https://cdn.example.com/sofa.jpg'',
     c_price = None, c_availabilityStatus = None, c_isFeatured = None,
     c_isPromotional = None, c_promotionalPrice = None \<rparr>"

section \<open>Facts about the runtime model\<close>

lemma length_sort_insert: "length (sort_insert c x ys) = Suc (length ys)"
  by (induction ys) auto

lemma length_foldl_sort_insert:
  "length (foldl (\<lambda>acc x. sort_insert c x acc) acc xs) = length acc + length xs"
  by (induction xs arbitrary: acc) (auto simp: length_sort_insert)

lemma length_Array_sort: "length (Array_sort c xs) = length xs"
  by (simp add: Array_sort_def length_foldl_sort_insert)

lemma Map_get_Map_set: "Map_get (Map_set k v m) k' = (if k' = k then Some v else Map_get m k')"
  by (induction m) (auto simp: Map_get_def)

lemma Map_set_fresh: "k \<notin> fst ` set m \<Longrightarrow> Map_set k v m = m @ [(k, v)]"
  by (induction m) auto

lemma Map_set_same: "Map_get m k = Some v \<Longrightarrow> Map_set k v m = m"
  by (induction m) (auto simp: Map_get_def split: if_splits)

lemma Map_get_in: "Map_get m k = Some v \<Longrightarrow> (k, v) \<in> set m"
  by (simp add: Map_get_def map_of_SomeD)

lemma Map_get_distinct: "distinct (map fst m) \<Longrightarrow> (k, v) \<in> set m \<Longrightarrow> Map_get m k = Some v"
  by (simp add: Map_get_def)

section \<open>Catalogue: pagination and infinite scroll\<close>

lemma length_sortProducts: "length (sortProducts lc xs crit) = length xs"
  by (cases crit) (simp_all add: sortProducts_def length_Array_sort)

lemma length_catalogList: "length (catalogList lc now crit s) = length (getAll s)"
  by (simp add: catalogList_def length_sortProducts)

lemma ceilDiv_12: "ceilDiv n 12 = (n + 11) div 12"
  unfolding ceilDiv_def by linarith

lemma ceilDiv_24: "ceilDiv n 24 = (n + 23) div 24"
  unfolding ceilDiv_def by linarith

lemma ceilDiv_48: "ceilDiv n 48 = (n + 47) div 48"
  unfolding ceilDiv_def by linarith

lemma ceilDiv_options:
  "k \<in> {12, 24, 48} \<Longrightarrow> ceilDiv n k = (n + k - 1) div k"
  using ceilDiv_12 [of n] ceilDiv_24 [of n] ceilDiv_48 [of n] by auto

lemma slice_take_drop: "slice xs start (start + k) = take k (drop start xs)"
  by (simp add: slice_def)

lemma length_getAll_sample: "length (getAll (sampleProductStore n True)) = n"
  by (simp add: getAll_def sampleProductStore_def Map_values_def sampleProduct_def comp_def)

text \<open>
  C2. In pagination mode, over \<open>n\<close> active products, with \<open>itemsPerPage = k\<close> one of
  12, 24, 48 and a requested page \<open>p \<ge> 1\<close>: the request succeeds, \<open>totalPages\<close> is
  \<open>\<lceil>n / k\<rceil>\<close> and at least 1, the page answered is \<open>p\<close> clamped down to \<open>totalPages\<close>,
  the products are the elements \<open>(page - 1) * k\<close> up to \<open>page * k\<close> (exclusive) of the
  sorted list, \<open>hasPrevious\<close> is \<open>page > 1\<close> and \<open>hasNext\<close> is \<open>page < totalPages\<close>.
\<close>

theorem productCatalog_pagination:
  assumes "rq_navigationMode params = PAGINATION"
    and "rq_itemsPerPage params \<in> {12, 24, 48}"
    and "1 \<le> rq_currentPage params"
  shows "productCatalog lc now (Inr params) s =
    (let n = length (getAll s);
         k = rq_itemsPerPage params;
         totalPages = max 1 ((n + k - 1) div k);
         page = min (rq_currentPage params) totalPages
     in Inr \<lparr> catalogTitle = theCatalogTitle,
          totalProductsCount = n,
          products = map mapToListResponse
            (take k (drop ((page - 1) * k) (catalogList lc now (rq_sortCriteria params) s))),
          pagination = Some \<lparr>
            pg_currentPage = page,
            pg_itemsPerPage = k,
            pg_totalPages = totalPages,
            pg_hasPrevious = (page > 1),
            pg_hasNext = (page < totalPages) \<rparr>,
          infiniteScroll = None \<rparr>)"
proof -
  let ?n = "length (getAll s)"
  let ?k = "rq_itemsPerPage params"
  let ?p = "rq_currentPage params"
  let ?raw = "ceilDiv ?n ?k"
  have step: "productCatalog lc now (Inr params) s =
    Inr \<lparr> catalogTitle = theCatalogTitle,
          totalProductsCount = ?n,
          products = map mapToListResponse
            (take ?k (drop ((min ?p (orOne ?raw) - 1) * ?k) (catalogList lc now (rq_sortCriteria params) s))),
          pagination = Some \<lparr>
            pg_currentPage = min ?p (orOne ?raw),
            pg_itemsPerPage = ?k,
            pg_totalPages = orOne ?raw,
            pg_hasPrevious = (min ?p (orOne ?raw) > 1),
            pg_hasNext = (min ?p (orOne ?raw) < ?raw) \<rparr>,
          infiniteScroll = None \<rparr>"
    using assms(1)
    by (simp add: productCatalog_def Let_def slice_take_drop
        catalogList_def [symmetric] length_catalogList)
  have c: "?raw = (?n + ?k - 1) div ?k"
    using assms(2) by (rule ceilDiv_options)
  have o: "orOne ?raw = max 1 ?raw"
    by (simp add: orOne_def max_def)
  have h: "(min ?p (max 1 ?raw) < ?raw) = (min ?p (max 1 ?raw) < max 1 ?raw)"
    using assms(3) by (auto simp: max_def min_def)
  show ?thesis
    using o h unfolding step Let_def c by simp
qed

text \<open>
  The instance of the specification: 50 active products, 24 per page, page 3 requested
  give 3 pages, page 3, the last 2 products, a previous page and no next page.
\<close>

theorem productCatalog_pagination_witness:
  "rq_navigationMode (sampleCatalogRequest PAGINATION 3 24 0) = PAGINATION
   \<and> rq_itemsPerPage (sampleCatalogRequest PAGINATION 3 24 0) \<in> {12, 24, 48}
   \<and> 1 \<le> rq_currentPage (sampleCatalogRequest PAGINATION 3 24 0)
   \<and> (\<exists>resp. productCatalog (\<lambda>a b. 0) 0 (Inr (sampleCatalogRequest PAGINATION 3 24 0))
                (sampleProductStore 50 True) = Inr resp
        \<and> totalProductsCount resp = 50
        \<and> length (products resp) = 2
        \<and> pagination resp = Some \<lparr> pg_currentPage = 3, pg_itemsPerPage = 24, pg_totalPages = 3,
             pg_hasPrevious = True, pg_hasNext = False \<rparr>)"
proof -
  let ?rq = "sampleCatalogRequest PAGINATION 3 24 0"
  have h1: "rq_navigationMode ?rq = PAGINATION"
    and h2: "rq_itemsPerPage ?rq \<in> {12, 24, 48}"
    and h3: "1 \<le> rq_currentPage ?rq"
    by (simp_all add: sampleCatalogRequest_def)
  have v: "rq_itemsPerPage ?rq = 24" "rq_currentPage ?rq = 3"
    by (simp_all add: sampleCatalogRequest_def)
  show ?thesis
    using productCatalog_pagination [OF h1 h2 h3, of "\<lambda>a b. 0" 0 "sampleProductStore 50 True"]
    by (simp add: h1 v Let_def length_getAll_sample length_catalogList)
qed

text \<open>
  C3. In infinite-scroll mode, over \<open>n\<close> active products and with \<open>L\<close> items already
  loaded: the request succeeds, the products are the elements \<open>L\<close> up to \<open>L + 24\<close>
  (exclusive) of the sorted list, the new \<open>loadedItemsCount\<close> is \<open>min (L + 24) n\<close>, the
  batch size is 24 and \<open>hasMoreItems\<close> is \<open>L + 24 < n\<close>.
\<close>

theorem productCatalog_infinite_scroll:
  assumes "rq_navigationMode params = INFINITE_SCROLL"
  shows "productCatalog lc now (Inr params) s =
    Inr \<lparr> catalogTitle = theCatalogTitle,
          totalProductsCount = length (getAll s),
          products = map mapToListResponse
            (take 24 (drop (rq_loadedItemsCount params) (catalogList lc now (rq_sortCriteria params) s))),
          pagination = None,
          infiniteScroll = Some \<lparr>
            sc_loadedItemsCount = min (rq_loadedItemsCount params + 24) (length (getAll s)),
            sc_batchSize = 24,
            sc_hasMoreItems = (rq_loadedItemsCount params + 24 < length (getAll s)),
            sc_isLoading = False \<rparr> \<rparr>"
  using assms
  by (simp add: productCatalog_def Let_def slice_take_drop BATCH_SIZE_def
      catalogList_def [symmetric] length_catalogList)

text \<open>
  The instance of the specification: nothing loaded yet and 10 active products give all
  10 products, a new \<open>loadedItemsCount\<close> of 10 and no more items.
\<close>

theorem productCatalog_infinite_scroll_witness:
  "rq_navigationMode (sampleCatalogRequest INFINITE_SCROLL 1 24 0) = INFINITE_SCROLL
   \<and> (\<exists>resp. productCatalog (\<lambda>a b. 0) 0 (Inr (sampleCatalogRequest INFINITE_SCROLL 1 24 0))
                (sampleProductStore 10 True) = Inr resp
        \<and> length (products resp) = 10
        \<and> products resp = map mapToListResponse
             (catalogList (\<lambda>a b. 0) 0 NAME_ASC (sampleProductStore 10 True))
        \<and> infiniteScroll resp = Some \<lparr> sc_loadedItemsCount = 10, sc_batchSize = 24,
             sc_hasMoreItems = False, sc_isLoading = False \<rparr>)"
proof -
  let ?rq = "sampleCatalogRequest INFINITE_SCROLL 1 24 0"
  have h1: "rq_navigationMode ?rq = INFINITE_SCROLL"
    by (simp add: sampleCatalogRequest_def)
  show ?thesis
    using productCatalog_infinite_scroll [OF h1, of "\<lambda>a b. 0" 0 "sampleProductStore 10 True"]
    by (simp add: sampleCatalogRequest_def length_getAll_sample length_catalogList)
qed

section \<open>Interaction counters and popularity\<close>

lemma getById_Some_iff:
  "getById s i = Some r \<longleftrightarrow> Map_get (records s) i = Some r \<and> p_active r"
  by (auto simp: getById_def split: option.splits)
















section \<open>Sorting by price\<close>

lemma priceAscCompare_simps:
  "p_price a = None \<Longrightarrow> priceAscCompare a b = 1"
  "p_price a = Some pa \<Longrightarrow> p_price b = None \<Longrightarrow> priceAscCompare a b = - 1"
  "p_price a = Some pa \<Longrightarrow> p_price b = Some pb \<Longrightarrow> priceAscCompare a b = pa - pb"
  by (simp_all add: priceAscCompare_def)

lemma sort_insert_null_asc:
  "p_price x = None \<Longrightarrow> sort_insert priceAscCompare x acc = acc @ [x]"
  by (induction acc) (auto simp: priceAscCompare_simps)

lemma sort_insert_some_asc:
  assumes "p_price x = Some a"
  shows "map p_price acc = map Some ps @ replicate m None \<Longrightarrow> sorted ps \<Longrightarrow>
     \<exists>ps'. map p_price (sort_insert priceAscCompare x acc) = map Some ps' @ replicate m None
        \<and> sorted ps' \<and> mset ps' = add_mset a (mset ps)"
proof (induction acc arbitrary: ps)
  case Nil
  then show ?case using assms by (intro exI [of _ "[a]"]) auto
next
  case (Cons y ys)
  show ?case
  proof (cases "p_price y")
    case None
    with Cons.prems have "ps = []" by (cases ps) auto
    with Cons.prems None assms show ?thesis
      by (intro exI [of _ "[a]"]) (auto simp: priceAscCompare_simps)
  next
    case (Some b)
    with Cons.prems obtain ps2 where ps: "ps = b # ps2"
      and ys: "map p_price ys = map Some ps2 @ replicate m None"
      by (cases ps; cases m) auto
    show ?thesis
    proof (cases "a - b < 0")
      case True
      with Cons.prems Some assms ps show ?thesis
        by (intro exI [of _ "a # ps"]) (auto simp: priceAscCompare_simps)
    next
      case False
      from Cons.prems ps have "sorted ps2" by simp
      from Cons.IH [OF ys this] obtain ps' where
        p: "map p_price (sort_insert priceAscCompare x ys) = map Some ps' @ replicate m None"
          "sorted ps'" "mset ps' = add_mset a (mset ps2)" by blast
      from p(3) have "set ps' = insert a (set ps2)"
        by (metis set_mset_add_mset_insert set_mset_mset)
      with False Cons.prems ps p(2) have "sorted (b # ps')" by auto
      with False Some assms ps p show ?thesis
        by (intro exI [of _ "b # ps'"]) (auto simp: priceAscCompare_simps)
    qed
  qed
qed

lemma nonNullPrices_simps:
  "nonNullPrices [] = []"
  "p_price x = None \<Longrightarrow> nonNullPrices (x # xs) = nonNullPrices xs"
  "p_price x = Some a \<Longrightarrow> nonNullPrices (x # xs) = a # nonNullPrices xs"
  by (simp_all add: nonNullPrices_def List.map_filter_simps)

lemma foldl_asc:
  "map p_price acc = map Some ps @ replicate m None \<Longrightarrow> sorted ps \<Longrightarrow>
   \<exists>ps'. map p_price (foldl (\<lambda>acc x. sort_insert priceAscCompare x acc) acc xs)
           = map Some ps' @ replicate (m + nullCount xs) None
         \<and> sorted ps' \<and> mset ps' = mset ps + mset (nonNullPrices xs)"
proof (induction xs arbitrary: acc ps m)
  case Nil
  then show ?case by (auto simp: nullCount_def nonNullPrices_simps)
next
  case (Cons x xs)
  show ?case
  proof (cases "p_price x")
    case None
    have "map p_price (sort_insert priceAscCompare x acc) = map Some ps @ replicate (Suc m) None"
      using Cons.prems(1) None
      by (simp add: sort_insert_null_asc replicate_append_same)
    from Cons.IH [OF this Cons.prems(2)] None show ?thesis
      by (simp add: nullCount_def nonNullPrices_simps)
  next
    case (Some a)
    from sort_insert_some_asc [OF Some Cons.prems] obtain ps1 where
      p: "map p_price (sort_insert priceAscCompare x acc) = map Some ps1 @ replicate m None"
         "sorted ps1" "mset ps1 = add_mset a (mset ps)" by blast
    from Cons.IH [OF p(1) p(2)] p(3) Some show ?thesis
      by (simp add: nullCount_def nonNullPrices_simps)
  qed
qed

lemma Array_sort_price_asc:
  "map p_price (Array_sort priceAscCompare xs)
     = map Some (sort (nonNullPrices xs)) @ replicate (nullCount xs) None"
proof -
  from foldl_asc [of "[]" "[]" 0 xs] obtain ps' where
    p: "map p_price (Array_sort priceAscCompare xs) = map Some ps' @ replicate (nullCount xs) None"
       "sorted ps'" "mset ps' = mset (nonNullPrices xs)"
    by (auto simp: Array_sort_def)
  from p(3) p(2) have "sort (nonNullPrices xs) = ps'"
    by (rule properties_for_sort)
  with p(1) show ?thesis by simp
qed

lemma priceDescCompare_simps:
  "p_price a = None \<Longrightarrow> priceDescCompare a b = 1"
  "p_price a = Some pa \<Longrightarrow> p_price b = None \<Longrightarrow> priceDescCompare a b = - 1"
  "p_price a = Some pa \<Longrightarrow> p_price b = Some pb \<Longrightarrow> priceDescCompare a b = pb - pa"
  by (simp_all add: priceDescCompare_def)

lemma sort_insert_null_desc:
  "p_price x = None \<Longrightarrow> sort_insert priceDescCompare x acc = acc @ [x]"
  by (induction acc) (auto simp: priceDescCompare_simps)

lemma sort_insert_some_desc:
  assumes "p_price x = Some a"
  shows "map p_price acc = map Some ps @ replicate m None \<Longrightarrow> sorted (rev ps) \<Longrightarrow>
     \<exists>ps'. map p_price (sort_insert priceDescCompare x acc) = map Some ps' @ replicate m None
        \<and> sorted (rev ps') \<and> mset ps' = add_mset a (mset ps)"
proof (induction acc arbitrary: ps)
  case Nil
  then show ?case using assms by (intro exI [of _ "[a]"]) auto
next
  case (Cons y ys)
  show ?case
  proof (cases "p_price y")
    case None
    with Cons.prems have "ps = []" by (cases ps) auto
    with Cons.prems None assms show ?thesis
      by (intro exI [of _ "[a]"]) (auto simp: priceDescCompare_simps)
  next
    case (Some b)
    with Cons.prems obtain ps2 where ps: "ps = b # ps2"
      and ys: "map p_price ys = map Some ps2 @ replicate m None"
      by (cases ps; cases m) auto
    show ?thesis
    proof (cases "b - a < 0")
      case True
      with Cons.prems Some assms ps show ?thesis
        by (intro exI [of _ "a # ps"]) (auto simp: priceDescCompare_simps sorted_append)
    next
      case False
      from Cons.prems ps have "sorted (rev ps2)" by (simp add: sorted_append)
      from Cons.IH [OF ys this] obtain ps' where
        p: "map p_price (sort_insert priceDescCompare x ys) = map Some ps' @ replicate m None"
          "sorted (rev ps')" "mset ps' = add_mset a (mset ps2)" by blast
      from p(3) have "set ps' = insert a (set ps2)"
        by (metis set_mset_add_mset_insert set_mset_mset)
      with False Cons.prems ps p(2) have "sorted (rev (b # ps'))" by (auto simp: sorted_append)
      with False Some assms ps p show ?thesis
        by (intro exI [of _ "b # ps'"]) (auto simp: priceDescCompare_simps)
    qed
  qed
qed

lemma foldl_desc:
  "map p_price acc = map Some ps @ replicate m None \<Longrightarrow> sorted (rev ps) \<Longrightarrow>
   \<exists>ps'. map p_price (foldl (\<lambda>acc x. sort_insert priceDescCompare x acc) acc xs)
           = map Some ps' @ replicate (m + nullCount xs) None
         \<and> sorted (rev ps') \<and> mset ps' = mset ps + mset (nonNullPrices xs)"
proof (induction xs arbitrary: acc ps m)
  case Nil
  then show ?case by (auto simp: nullCount_def nonNullPrices_simps)
next
  case (Cons x xs)
  show ?case
  proof (cases "p_price x")
    case None
    have "map p_price (sort_insert priceDescCompare x acc) = map Some ps @ replicate (Suc m) None"
      using Cons.prems(1) None
      by (simp add: sort_insert_null_desc replicate_append_same)
    from Cons.IH [OF this Cons.prems(2)] None show ?thesis
      by (simp add: nullCount_def nonNullPrices_simps)
  next
    case (Some a)
    from sort_insert_some_desc [OF Some Cons.prems] obtain ps1 where
      p: "map p_price (sort_insert priceDescCompare x acc) = map Some ps1 @ replicate m None"
         "sorted (rev ps1)" "mset ps1 = add_mset a (mset ps)" by blast
    from Cons.IH [OF p(1) p(2)] p(3) Some show ?thesis
      by (simp add: nullCount_def nonNullPrices_simps)
  qed
qed

lemma Array_sort_price_desc:
  "map p_price (Array_sort priceDescCompare xs)
     = map Some (rev (sort (nonNullPrices xs))) @ replicate (nullCount xs) None"
proof -
  from foldl_desc [of "[]" "[]" 0 xs] obtain ps' where
    p: "map p_price (Array_sort priceDescCompare xs) = map Some ps' @ replicate (nullCount xs) None"
       "sorted (rev ps')" "mset ps' = mset (nonNullPrices xs)"
    by (auto simp: Array_sort_def)
  from p(3) have "mset (rev ps') = mset (nonNullPrices xs)" by simp
  from this p(2) have "sort (nonNullPrices xs) = rev ps'"
    by (rule properties_for_sort)
  then have "rev (sort (nonNullPrices xs)) = ps'" by simp
  with p(1) show ?thesis by simp
qed

text \<open>
  C8. Sorted by price ascending, the prices of the result are the non-null prices in
  ascending order followed by all the null prices; sorted by price descending, they
  are the non-null prices in descending order followed by all the null prices.
\<close>

theorem sortProducts_price_nulls_last:
  "map p_price (sortProducts lc xs PRICE_ASC)
     = map Some (sort (nonNullPrices xs)) @ replicate (nullCount xs) None
   \<and> map p_price (sortProducts lc xs PRICE_DESC)
     = map Some (rev (sort (nonNullPrices xs))) @ replicate (nullCount xs) None"
  by (simp add: sortProducts_def Array_sort_price_asc Array_sort_price_desc)

text \<open>Prices null, 10, 5 come out as 5, 10, null ascending and 10, 5, null descending.\<close>

theorem sortProducts_price_nulls_last_witness:
  "map p_price threePrices = [None, Some 10, Some 5]
   \<and> map p_price (sortProducts (\<lambda>a b. 0) threePrices PRICE_ASC) = [Some 5, Some 10, None]
   \<and> map p_price (sortProducts (\<lambda>a b. 0) threePrices PRICE_DESC) = [Some 10, Some 5, None]"
proof -
  have n: "nonNullPrices threePrices = [10, 5]" "nullCount threePrices = 1"
    by (simp_all add: threePrices_def nonNullPrices_def nullCount_def sampleProduct_def
        List.map_filter_simps)
  have p: "map p_price threePrices = [None, Some 10, Some 5]"
    by (simp add: threePrices_def sampleProduct_def)
  show ?thesis
    using sortProducts_price_nulls_last [of "\<lambda>a b. 0" threePrices] p
    by (simp add: n)
qed

section \<open>Creating gallery images\<close>

lemma length_getImagesByGalleryId:
  "length (getImagesByGalleryId s g v) = liveImageCount s g"
  by (simp add: getImagesByGalleryId_def liveImageCount_def length_Array_sort)

lemma includes_max: "String_includes ''Maximum images limit reached for this gallery'' ''Maximum images limit''"
  by simp

lemma includes_not_found: "\<not> String_includes ''Gallery not found'' ''Maximum images limit''"
  by simp

lemma images_updateGallery: "images (snd (updateGallery s i d)) = images s"
  by (simp add: updateGallery_def alloc_def split: option.splits)

lemma addImage_cases:
  "addImage s img =
     (case Map_get (galleries s) (img_galleryId img) of
        None \<Rightarrow> (Inl (Error ''Gallery not found''), s)
      | Some a \<Rightarrow>
          if 50 \<le> liveImageCount s (img_galleryId img)
          then (Inl (Error ''Maximum images limit reached for this gallery''), s)
          else (Inr img, s \<lparr> images := Map_set (img_id img) img (images s),
                 objects := (objects s)[a := (objects s ! a)
                    \<lparr> g_totalImages := liveImageCount s (img_galleryId img) + 1 \<rparr>],
                 galleries := Map_set (g_id ((objects s)[a := (objects s ! a)
                    \<lparr> g_totalImages := liveImageCount s (img_galleryId img) + 1 \<rparr>] ! a)) a (galleries s) \<rparr>))"
  by (simp add: addImage_def Let_def length_getImagesByGalleryId MAX_IMAGES_def deref_def
      split: option.splits)

lemma images_addImage_ok:
  assumes "Map_get (galleries s) (img_galleryId img) = Some a"
    and "liveImageCount s (img_galleryId img) < 50"
  shows "fst (addImage s img) = Inr img"
    and "images (snd (addImage s img)) = Map_set (img_id img) img (images s)"
  using assms by (simp_all add: addImage_cases)

lemma galleryImageCreate_unfold:
  "galleryImageCreate newId (Inr params) s =
     (case getById_gallery s (ci_galleryId params) of
        None \<Rightarrow> (Inl (ServiceError ''NOT_FOUND'' ''Gallery not found'' 404 None), s)
      | Some gallery \<Rightarrow>
          (case addImage s (newImageOf newId params) of
             (Inr stored, s1) \<Rightarrow>
               (if g_totalImages (deref s1 gallery) = 0
                then (Inr (newImageOf newId params),
                      snd (updateGallery s1 (g_id (deref s1 gallery))
                             \<lparr> gu_mainImageUrl = Some (ci_fullSizeUrl params) \<rparr>))
                else (Inr (newImageOf newId params), s1))
           | (Inl e, s1) \<Rightarrow>
               (if String_includes (error_message e) ''Maximum images limit''
                then (Inl (ServiceError ''MAX_IMAGES_REACHED'' (error_message e) 400 None), s1)
                else (Inl e, s1))))"
  by (cases "getById_gallery s (ci_galleryId params)")
    (simp_all add: galleryImageCreate_def Let_def newImageOf_def SHOW_CAPTION_def
      split: prod.splits sum.splits)

lemma galleryImageCreate_full:
  assumes "getById_gallery s (ci_galleryId params) = Some a"
    and "50 \<le> liveImageCount s (ci_galleryId params)"
  shows "galleryImageCreate newId (Inr params) s =
     (Inl (ServiceError ''MAX_IMAGES_REACHED'' ''Maximum images limit reached for this gallery'' 400 None), s)"
proof -
  from assms have g: "Map_get (galleries s) (img_galleryId (newImageOf newId params)) = Some a"
    and c: "50 \<le> liveImageCount s (img_galleryId (newImageOf newId params))"
    by (simp_all add: getById_gallery_def newImageOf_def)
  have "addImage s (newImageOf newId params)
      = (Inl (Error ''Maximum images limit reached for this gallery''), s)"
    using g c by (simp add: addImage_cases)
  then show ?thesis
    using assms(1) by (simp add: galleryImageCreate_unfold)
qed

lemma galleryImageCreate_room:
  assumes "getById_gallery s (ci_galleryId params) = Some a"
    and "liveImageCount s (ci_galleryId params) < 50"
  shows "fst (galleryImageCreate newId (Inr params) s) = Inr (newImageOf newId params)"
    and "images (snd (galleryImageCreate newId (Inr params) s))
           = Map_set newId (newImageOf newId params) (images s)"
proof -
  let ?img = "newImageOf newId params"
  from assms have g: "Map_get (galleries s) (img_galleryId ?img) = Some a"
    and c: "liveImageCount s (img_galleryId ?img) < 50"
    by (simp_all add: getById_gallery_def newImageOf_def)
  obtain s1 where a: "addImage s ?img = (Inr ?img, s1)"
    using images_addImage_ok(1) [OF g c] by (cases "addImage s ?img") simp
  with images_addImage_ok(2) [OF g c] have i: "images s1 = Map_set newId ?img (images s)"
    by (simp add: newImageOf_def)
  show "fst (galleryImageCreate newId (Inr params) s) = Inr ?img"
    using assms(1) a by (simp add: galleryImageCreate_unfold)
  show "images (snd (galleryImageCreate newId (Inr params) s)) = Map_set newId ?img (images s)"
    using assms(1) a i by (simp add: galleryImageCreate_unfold images_updateGallery)
qed


text \<open>
  C10. Whatever the request, an image that \<open>galleryImageCreate\<close> returns successfully is
  stored under the drawn identifier with \<open>isActive = false\<close>.
\<close>

theorem galleryImageCreate_stores_inactive:
  assumes "galleryImageCreate newId validation s = (Inr img, s')"
  shows "img_isActive img = False \<and> getImageById s' newId = Some img"
proof -
  from assms obtain params where v: "validation = Inr params"
    by (cases validation) (simp_all add: galleryImageCreate_def)
  from assms v obtain a where g: "getById_gallery s (ci_galleryId params) = Some a"
    by (cases "getById_gallery s (ci_galleryId params)") (simp_all add: galleryImageCreate_unfold)
  have c: "liveImageCount s (ci_galleryId params) < 50"
  proof (rule ccontr)
    assume "\<not> liveImageCount s (ci_galleryId params) < 50"
    then have "50 \<le> liveImageCount s (ci_galleryId params)" by simp
    from galleryImageCreate_full [OF g this, of newId] assms v show False by simp
  qed
  from galleryImageCreate_room [OF g c, of newId] assms v
  have "img = newImageOf newId params"
    and "images s' = Map_set newId (newImageOf newId params) (images s)"
    by simp_all
  then show ?thesis
    by (simp add: getImageById_def Map_get_Map_set newImageOf_def)
qed

lemma sample_gallery_facts:
  "getById_gallery (sampleGalleryStore n) sampleGalleryId = Some 0"
  "ci_galleryId (sampleImageInput u) = sampleGalleryId"
  "liveImageCount (sampleGalleryStore n) sampleGalleryId = n"
  "sampleNewId \<notin> fst ` set (images (sampleGalleryStore n))"
  by (auto simp: sampleGalleryStore_def getById_gallery_def Map_get_def sampleImageInput_def
      liveImageCount_def Map_values_def comp_def sampleImage_def sampleNewId_def sampleId_def)

text \<open>The first image of an empty gallery.\<close>

theorem galleryImageCreate_stores_inactive_witness:
  "galleryImageCreate sampleNewId (Inr (sampleImageInput ''https://cdn.example.com/first.jpg''))
       (sampleGalleryStore 0)
     = (Inr (newImageOf sampleNewId (sampleImageInput ''https://cdn.example.com/first.jpg'')),
        snd (galleryImageCreate sampleNewId
               (Inr (sampleImageInput ''https://cdn.example.com/first.jpg'')) (sampleGalleryStore 0)))
   \<and> img_isActive (newImageOf sampleNewId (sampleImageInput ''https://cdn.example.com/first.jpg''))
       = False
   \<and> getImageById
        (snd (galleryImageCreate sampleNewId
               (Inr (sampleImageInput ''https://cdn.example.com/first.jpg'')) (sampleGalleryStore 0)))
        sampleNewId
       = Some (newImageOf sampleNewId (sampleImageInput ''https://cdn.example.com/first.jpg''))"
proof -
  let ?in = "sampleImageInput ''https://cdn.example.com/first.jpg''"
  let ?res = "galleryImageCreate sampleNewId (Inr ?in) (sampleGalleryStore 0)"
  have g: "getById_gallery (sampleGalleryStore 0) (ci_galleryId ?in) = Some 0"
    by (simp add: sample_gallery_facts)
  have c: "liveImageCount (sampleGalleryStore 0) (ci_galleryId ?in) < 50"
    by (simp add: sample_gallery_facts)
  have h: "?res = (Inr (newImageOf sampleNewId ?in), snd ?res)"
    using galleryImageCreate_room(1) [OF g c, of sampleNewId]
    by (metis prod.collapse)
  from galleryImageCreate_stores_inactive [OF h] h show ?thesis
    by simp
qed

text \<open>
  C5. For a valid request on an existing gallery: when the gallery holds 49 images the
  call succeeds and the image is stored (with a fresh identifier the gallery then holds
  50); when it holds 50 the call fails with \<open>MAX_IMAGES_REACHED\<close> and the store is
  unchanged.
\<close>

theorem galleryImageCreate_capacity:
  assumes "getById_gallery s (ci_galleryId params) = Some a"
  shows "(liveImageCount s (ci_galleryId params) = 49 \<longrightarrow>
           (\<exists>img s'. galleryImageCreate newId (Inr params) s = (Inr img, s')
              \<and> getImageById s' newId = Some img
              \<and> img_galleryId img = ci_galleryId params
              \<and> (newId \<notin> fst ` set (images s) \<longrightarrow> liveImageCount s' (ci_galleryId params) = 50)))
       \<and> (liveImageCount s (ci_galleryId params) = 50 \<longrightarrow>
           galleryImageCreate newId (Inr params) s =
             (Inl (ServiceError ''MAX_IMAGES_REACHED''
                     ''Maximum images limit reached for this gallery'' 400 None), s))"
proof (intro conjI impI)
  assume n: "liveImageCount s (ci_galleryId params) = 49"
  then have c: "liveImageCount s (ci_galleryId params) < 50" by simp
  let ?res = "galleryImageCreate newId (Inr params) s"
  let ?img = "newImageOf newId params"
  from galleryImageCreate_room [OF assms c, of newId]
  have r: "fst ?res = Inr ?img" and i: "images (snd ?res) = Map_set newId ?img (images s)"
    by simp_all
  have e: "?res = (Inr ?img, snd ?res)"
    using r by (metis prod.collapse)
  have st: "getImageById (snd ?res) newId = Some ?img"
    by (simp add: getImageById_def i Map_get_Map_set)
  have gid: "img_galleryId ?img = ci_galleryId params"
    by (simp add: newImageOf_def)
  have fr: "liveImageCount (snd ?res) (ci_galleryId params) = 50"
    if "newId \<notin> fst ` set (images s)"
    using that n by (simp add: liveImageCount_def i Map_set_fresh Map_values_def gid)
  show "\<exists>img s'. ?res = (Inr img, s') \<and> getImageById s' newId = Some img
      \<and> img_galleryId img = ci_galleryId params
      \<and> (newId \<notin> fst ` set (images s) \<longrightarrow> liveImageCount s' (ci_galleryId params) = 50)"
    using e st gid fr by blast
next
  assume "liveImageCount s (ci_galleryId params) = 50"
  then have "50 \<le> liveImageCount s (ci_galleryId params)" by simp
  from galleryImageCreate_full [OF assms this]
  show "galleryImageCreate newId (Inr params) s =
      (Inl (ServiceError ''MAX_IMAGES_REACHED''
             ''Maximum images limit reached for this gallery'' 400 None), s)" .
qed

text \<open>A gallery with 49 images takes the 50th; a gallery with 50 rejects the 51st.\<close>

theorem galleryImageCreate_capacity_witness:
  "getById_gallery (sampleGalleryStore 49) (ci_galleryId (sampleImageInput ''https://cdn.example.com/n.jpg'')) = Some 0
   \<and> liveImageCount (sampleGalleryStore 49) sampleGalleryId = 49
   \<and> sampleNewId \<notin> fst ` set (images (sampleGalleryStore 49))
   \<and> (\<exists>img s'. galleryImageCreate sampleNewId (Inr (sampleImageInput ''https://cdn.example.com/n.jpg''))
                   (sampleGalleryStore 49) = (Inr img, s')
         \<and> getImageById s' sampleNewId = Some img
         \<and> liveImageCount s' sampleGalleryId = 50)
   \<and> getById_gallery (sampleGalleryStore 50) (ci_galleryId (sampleImageInput ''https://cdn.example.com/n.jpg'')) = Some 0
   \<and> liveImageCount (sampleGalleryStore 50) sampleGalleryId = 50
   \<and> galleryImageCreate sampleNewId (Inr (sampleImageInput ''https://cdn.example.com/n.jpg''))
        (sampleGalleryStore 50)
      = (Inl (ServiceError ''MAX_IMAGES_REACHED''
                ''Maximum images limit reached for this gallery'' 400 None), sampleGalleryStore 50)"
proof -
  let ?in = "sampleImageInput ''https://cdn.example.com/n.jpg''"
  have g49: "getById_gallery (sampleGalleryStore 49) (ci_galleryId ?in) = Some 0"
    and g50: "getById_gallery (sampleGalleryStore 50) (ci_galleryId ?in) = Some 0"
    by (simp_all add: sample_gallery_facts)
  show ?thesis
    using galleryImageCreate_capacity [OF g49, of sampleNewId]
      galleryImageCreate_capacity [OF g50, of sampleNewId]
    by (clarsimp simp: sample_gallery_facts)
qed

section \<open>The gallery invariant\<close>

lemma keys_Map_set_present:
  "k \<in> fst ` set m \<Longrightarrow> map fst (Map_set k v m) = map fst m"
  by (induction m) force+

lemma Map_set_values_same:
  "Map_get m k = Some old \<Longrightarrow> f v = f old \<Longrightarrow>
   map (\<lambda>e. f (snd e)) (Map_set k v m) = map (\<lambda>e. f (snd e)) m"
  by (induction m) (auto simp: Map_get_def split: if_splits)

lemma Map_get_Some_key: "Map_get m k = Some v \<Longrightarrow> k \<in> fst ` set m"
  by (metis Map_get_in fst_conv image_eqI)

lemma Map_get_key: "k \<in> fst ` set m \<Longrightarrow> \<exists>v. Map_get m k = Some v"
  by (simp add: Map_get_def) (metis map_of_eq_None_iff not_Some_eq)

lemma liveImageCount_alt:
  "liveImageCount s k = length (filter (\<lambda>g. g = k) (map (\<lambda>e. img_galleryId (snd e)) (images s)))"
  by (simp add: liveImageCount_def Map_values_def filter_map comp_def)

lemma filter_delete_other:
  "distinct (map fst m) \<Longrightarrow> Map_get m i = Some v \<Longrightarrow> \<not> P v \<Longrightarrow>
   filter P (map snd (Map_delete i m)) = filter P (map snd m)"
proof (induction m)
  case Nil
  then show ?case by (simp add: Map_delete_def)
next
  case (Cons e m)
  show ?case
  proof (cases "fst e = i")
    case True
    with Cons.prems have "snd e = v" by (cases e) (simp add: Map_get_def)
    moreover from True Cons.prems(1) have "i \<notin> fst ` set m" by auto
    then have "Map_delete i m = m" by (auto simp: Map_delete_def filter_id_conv)
    ultimately show ?thesis using True Cons.prems(3) by (simp add: Map_delete_def)
  next
    case False
    with Cons.prems have "Map_get m i = Some v" by (cases e) (simp add: Map_get_def)
    with Cons.IH Cons.prems False show ?thesis by (simp add: Map_delete_def)
  qed
qed

lemma wfG_uniq:
  assumes "wfG s" "(g, a) \<in> set (galleries s)" "(k, b) \<in> set (galleries s)"
  shows "k = g \<longleftrightarrow> b = a"
proof
  assume "k = g"
  with assms show "b = a" unfolding wfG_def by (metis eq_key_imp_eq_value)
next
  assume "b = a"
  from assms(1) have d: "distinct (map fst (map prod.swap (galleries s)))"
    unfolding wfG_def by (simp add: comp_def)
  from assms(2,3) \<open>b = a\<close> have "(a, g) \<in> set (map prod.swap (galleries s))"
    "(a, k) \<in> set (map prod.swap (galleries s))" by force+
  with d show "k = g" by (metis eq_key_imp_eq_value)
qed

lemma wf_recount:
  assumes wf: "wfG s" and ina: "(g, a) \<in> set (galleries s)"
    and d: "distinct (map fst ims)"
    and sub: "\<And>i im. (i, im) \<in> set ims \<Longrightarrow> img_galleryId im \<in> fst ` set (galleries s)"
    and other: "\<And>k. k \<noteq> g \<Longrightarrow> liveImageCount (s \<lparr> images := ims \<rparr>) k = liveImageCount s k"
  shows "wfG (s \<lparr> images := ims,
           objects := (objects s)[a := (objects s ! a)
              \<lparr> g_totalImages := liveImageCount (s \<lparr> images := ims \<rparr>) g \<rparr>] \<rparr>)"
    (is "wfG ?s'")
proof -
  have gal: "galleries ?s' = galleries s" and ims: "images ?s' = ims"
    and obj: "objects ?s' = (objects s)[a := (objects s ! a)
              \<lparr> g_totalImages := liveImageCount (s \<lparr> images := ims \<rparr>) g \<rparr>]"
    by simp_all
  have cnt: "liveImageCount ?s' k = liveImageCount (s \<lparr> images := ims \<rparr>) k" for k
    by (simp add: liveImageCount_def)
  from wf ina have la: "a < length (objects s)" and ida: "g_id (objects s ! a) = g"
    unfolding wfG_def by blast+
  have entry: "b < length (objects ?s') \<and> g_id (objects ?s' ! b) = k
        \<and> g_totalImages (objects ?s' ! b) = liveImageCount ?s' k"
    if kb: "(k, b) \<in> set (galleries s)" for k b
  proof (cases "b = a")
    case True
    with wfG_uniq [OF wf ina kb] have "k = g" by simp
    with True la ida show ?thesis unfolding cnt obj by simp
  next
    case False
    with wfG_uniq [OF wf ina kb] have ne: "k \<noteq> g" by simp
    from kb wf have "b < length (objects s) \<and> g_id (objects s ! b) = k
        \<and> g_totalImages (objects s ! b) = liveImageCount s k"
      unfolding wfG_def by blast
    with False other [OF ne] show ?thesis unfolding cnt obj by simp
  qed
  from wf have d1: "distinct (map fst (galleries s))" and d2: "distinct (map snd (galleries s))"
    by (simp_all add: wfG_def)
  show ?thesis
    unfolding wfG_def gal ims
  proof (intro conjI)
    show "\<forall>(k, a)\<in>set (galleries s). a < length (objects ?s') \<and> g_id (objects ?s' ! a) = k \<and>
         g_totalImages (objects ?s' ! a) = liveImageCount ?s' k"
      using entry by blast
    show "\<forall>(i, img)\<in>set ims. img_galleryId img \<in> fst ` set (galleries s)"
      using sub by blast
  qed (rule d1 d2 d)+
qed


lemma addImage_wf_eq:
  assumes wf: "wfG s" and g: "Map_get (galleries s) (img_galleryId img) = Some a"
    and c: "liveImageCount s (img_galleryId img) < 50"
  shows "addImage s img = (Inr img, s \<lparr> images := Map_set (img_id img) img (images s),
       objects := (objects s)[a := (objects s ! a)
          \<lparr> g_totalImages := liveImageCount s (img_galleryId img) + 1 \<rparr>] \<rparr>)"
proof -
  from g have ina: "(img_galleryId img, a) \<in> set (galleries s)" by (rule Map_get_in)
  with wf have la: "a < length (objects s)" and ida: "g_id (objects s ! a) = img_galleryId img"
    unfolding wfG_def by blast+
  show ?thesis
    using g c la ida by (simp add: addImage_cases Map_set_same)
qed

lemma galleryImageCreate_wf_eq:
  assumes wf: "wfG s" and g: "getById_gallery s (ci_galleryId params) = Some a"
    and c: "liveImageCount s (ci_galleryId params) < 50"
  shows "galleryImageCreate newId (Inr params) s =
     (Inr (newImageOf newId params),
      s \<lparr> images := Map_set newId (newImageOf newId params) (images s),
          objects := (objects s)[a := (objects s ! a)
             \<lparr> g_totalImages := liveImageCount s (ci_galleryId params) + 1 \<rparr>] \<rparr>)"
proof -
  let ?img = "newImageOf newId params"
  from g have g': "Map_get (galleries s) (img_galleryId ?img) = Some a"
    by (simp add: getById_gallery_def newImageOf_def)
  from c have c': "liveImageCount s (img_galleryId ?img) < 50"
    by (simp add: newImageOf_def)
  from g' have "(img_galleryId ?img, a) \<in> set (galleries s)" by (rule Map_get_in)
  with wf have la: "a < length (objects s)" unfolding wfG_def by blast
  have i: "img_id ?img = newId" "img_galleryId ?img = ci_galleryId params"
    by (simp_all add: newImageOf_def)
  show ?thesis
    using g la by (simp add: galleryImageCreate_unfold addImage_wf_eq [OF wf g' c'] i deref_def)
qed

lemma wfG_galleryImageCreate:
  assumes wf: "wfG s" and fresh: "newId \<notin> fst ` set (images s)"
  shows "wfG (snd (galleryImageCreate newId validation s))"
proof (cases validation)
  case (Inl issues)
  with wf show ?thesis by (simp add: galleryImageCreate_def)
next
  case (Inr params)
  show ?thesis
  proof (cases "getById_gallery s (ci_galleryId params)")
    case None
    with wf Inr show ?thesis by (simp add: galleryImageCreate_unfold)
  next
    case (Some a)
    show ?thesis
    proof (cases "liveImageCount s (ci_galleryId params) < 50")
      case False
      then have "50 \<le> liveImageCount s (ci_galleryId params)" by simp
      from galleryImageCreate_full [OF Some this] wf Inr show ?thesis by simp
    next
      case True
      let ?g = "ci_galleryId params"
      let ?img = "newImageOf newId params"
      let ?ims = "images s @ [(newId, ?img)]"
      from Some have ina: "(?g, a) \<in> set (galleries s)"
        unfolding getById_gallery_def by (rule Map_get_in)
      have gi: "img_galleryId ?img = ?g" by (simp add: newImageOf_def)
      have cnt: "liveImageCount (s \<lparr> images := ?ims \<rparr>) k
          = liveImageCount s k + (if ?g = k then 1 else 0)" for k
        by (simp add: liveImageCount_def Map_values_def gi)
      from wf fresh have d: "distinct (map fst ?ims)" by (simp add: wfG_def)
      have sub: "img_galleryId im \<in> fst ` set (galleries s)" if "(i, im) \<in> set ?ims" for i im
      proof (cases "(i, im) \<in> set (images s)")
        case True
        with wf show ?thesis unfolding wfG_def by blast
      next
        case False
        with that have "im = ?img" by simp
        with ina gi show ?thesis by force
      qed
      have other: "liveImageCount (s \<lparr> images := ?ims \<rparr>) k = liveImageCount s k" if "k \<noteq> ?g" for k
        using that by (simp add: cnt)
      from wf_recount [OF wf ina d sub other]
      have "wfG (s \<lparr> images := ?ims,
           objects := (objects s)[a := (objects s ! a)
              \<lparr> g_totalImages := liveImageCount s ?g + 1 \<rparr>] \<rparr>)"
        by (simp add: cnt)
      then show ?thesis
        using Inr fresh by (simp add: galleryImageCreate_wf_eq [OF wf Some True] Map_set_fresh)
    qed
  qed
qed

lemma wfG_galleryGet:
  assumes wf: "wfG s" and fresh: "newId \<notin> fst ` set (galleries s)"
  shows "wfG (snd (galleryGet newId validation s))"
proof (cases validation)
  case (Inl issues)
  with wf show ?thesis by (simp add: galleryGet_def)
next
  case (Inr query)
  show ?thesis
  proof (cases "getByProductId s (gg_productId query)")
    case (Some found)
    with wf Inr show ?thesis by (simp add: galleryGet_def Let_def)
  next
    case None
    let ?g = "\<lparr> g_id = newId, g_productId = gg_productId query, g_mainImageUrl = [],
        g_totalImages = 0, g_currentImageIndex = INITIAL_IMAGE_INDEX,
        g_currentVariationId = orNull (gg_variationId query), g_displayMode = DISPLAY_MODE \<rparr>"
    let ?n = "length (objects s)"
    let ?s' = "s \<lparr> objects := objects s @ [?g], galleries := galleries s @ [(newId, ?n)] \<rparr>"
    have res: "snd (galleryGet newId validation s) = ?s'"
      using Inr None fresh
      by (simp add: galleryGet_def Let_def alloc_def addGallery_def deref_def Map_set_fresh)
    have cnt: "liveImageCount ?s' k = liveImageCount s k" for k
      by (simp add: liveImageCount_def)
    have zero: "liveImageCount s newId = 0"
    proof -
      have "img_galleryId im \<noteq> newId" if "im \<in> set (Map_values (images s))" for im
      proof -
        from that obtain i where "(i, im) \<in> set (images s)"
          by (auto simp: Map_values_def)
        with wf have "img_galleryId im \<in> fst ` set (galleries s)" unfolding wfG_def by blast
        with fresh show ?thesis by auto
      qed
      then show ?thesis by (simp add: liveImageCount_def filter_empty_conv)
    qed
    have old: "b < length (objects ?s') \<and> g_id (objects ?s' ! b) = k
        \<and> g_totalImages (objects ?s' ! b) = liveImageCount ?s' k"
      if "(k, b) \<in> set (galleries s)" for k b
    proof -
      from that wf have "b < length (objects s) \<and> g_id (objects s ! b) = k
        \<and> g_totalImages (objects s ! b) = liveImageCount s k"
        unfolding wfG_def by blast
      then show ?thesis unfolding cnt by (simp add: nth_append)
    qed
    have new: "?n < length (objects ?s') \<and> g_id (objects ?s' ! ?n) = newId
        \<and> g_totalImages (objects ?s' ! ?n) = liveImageCount ?s' newId"
      unfolding cnt zero by simp
    have refs: "?n \<notin> snd ` set (galleries s)"
    proof
      assume "?n \<in> snd ` set (galleries s)"
      then obtain k where "(k, ?n) \<in> set (galleries s)" by force
      with wf have "?n < length (objects s)" unfolding wfG_def by blast
      then show False by simp
    qed
    from wf fresh have d1: "distinct (map fst (galleries ?s'))" by (simp add: wfG_def)
    from wf refs have d2: "distinct (map snd (galleries ?s'))" by (simp add: wfG_def)
    from wf have d3: "distinct (map fst (images ?s'))" by (simp add: wfG_def)
    have ent: "\<forall>(k, a)\<in>set (galleries ?s'). a < length (objects ?s') \<and> g_id (objects ?s' ! a) = k \<and>
         g_totalImages (objects ?s' ! a) = liveImageCount ?s' k"
    proof (clarify)
      fix k b assume "(k, b) \<in> set (galleries ?s')"
      then have "(k, b) \<in> set (galleries s) \<or> (k = newId \<and> b = ?n)" by auto
      then show "b < length (objects ?s') \<and> g_id (objects ?s' ! b) = k \<and>
         g_totalImages (objects ?s' ! b) = liveImageCount ?s' k"
        using old new by blast
    qed
    have sub: "\<forall>(i, img)\<in>set (images ?s'). img_galleryId img \<in> fst ` set (galleries ?s')"
    proof (clarify)
      fix i im assume "(i, im) \<in> set (images ?s')"
      then have "(i, im) \<in> set (images s)" by simp
      with wf have "img_galleryId im \<in> fst ` set (galleries s)" unfolding wfG_def by blast
      then show "img_galleryId im \<in> fst ` set (galleries ?s')" by simp
    qed
    show ?thesis
      unfolding res wfG_def using d1 d2 d3 ent sub by blast
  qed
qed

lemma wfG_images_only:
  assumes wf: "wfG s"
    and k: "map fst ims = map fst (images s)"
    and g: "map (\<lambda>e. img_galleryId (snd e)) ims = map (\<lambda>e. img_galleryId (snd e)) (images s)"
  shows "wfG (s \<lparr> images := ims \<rparr>)"
proof -
  have cnt: "liveImageCount (s \<lparr> images := ims \<rparr>) k = liveImageCount s k" for k
    by (simp add: liveImageCount_alt g)
  have sub: "img_galleryId im \<in> fst ` set (galleries s)" if "(i, im) \<in> set ims" for i im
  proof -
    from that have "img_galleryId im \<in> set (map (\<lambda>e. img_galleryId (snd e)) ims)" by force
    then have "img_galleryId im \<in> set (map (\<lambda>e. img_galleryId (snd e)) (images s))"
      by (simp only: g)
    then obtain e where "e \<in> set (images s)" "img_galleryId im = img_galleryId (snd e)" by auto
    then have "(fst e, snd e) \<in> set (images s)" by simp
    with wf have "img_galleryId (snd e) \<in> fst ` set (galleries s)" unfolding wfG_def by blast
    with \<open>img_galleryId im = img_galleryId (snd e)\<close> show ?thesis by simp
  qed
  from wf have d: "distinct (map fst (galleries s))" "distinct (map snd (galleries s))"
    "distinct (map fst ims)" by (simp_all add: wfG_def k)
  from wf have ent: "\<forall>(k, a)\<in>set (galleries s). a < length (objects s) \<and> g_id (objects s ! a) = k \<and>
      g_totalImages (objects s ! a) = liveImageCount s k" unfolding wfG_def by blast
  have ims: "images (s \<lparr> images := ims \<rparr>) = ims" and gal: "galleries (s \<lparr> images := ims \<rparr>) = galleries s"
    and obj: "objects (s \<lparr> images := ims \<rparr>) = objects s" by simp_all
  show ?thesis
    unfolding wfG_def ims gal obj cnt
  proof (intro conjI)
    show "\<forall>(i, img)\<in>set ims. img_galleryId img \<in> fst ` set (galleries s)"
      using sub by blast
  qed (rule d ent)+
qed

lemma wfG_galleryImageUpdate:
  assumes wf: "wfG s"
  shows "wfG (snd (galleryImageUpdate paramsValidation bodyValidation s))"
proof (cases paramsValidation)
  case (Inl issues)
  with wf show ?thesis by (simp add: galleryImageUpdate_def)
next
  case i: (Inr i)
  show ?thesis
  proof (cases bodyValidation)
    case (Inl issues)
    with wf i show ?thesis by (simp add: galleryImageUpdate_def)
  next
    case b: (Inr updateData)
    show ?thesis
    proof (cases "Map_get (images s) i")
      case None
      with wf i b show ?thesis by (simp add: galleryImageUpdate_def getImageById_def)
    next
      case (Some existing)
      have same: "img_galleryId (spreadImage existing d) = img_galleryId existing" for d
        by (simp add: spreadImage_def)
      from Some have "i \<in> fst ` set (images s)" by (rule Map_get_Some_key)
      then have k: "map fst (Map_set i (spreadImage existing d) (images s)) = map fst (images s)" for d
        by (rule keys_Map_set_present)
      have g: "map (\<lambda>e. img_galleryId (snd e)) (Map_set i (spreadImage existing d) (images s))
          = map (\<lambda>e. img_galleryId (snd e)) (images s)" for d
        using Some same by (rule Map_set_values_same)
      have upd: "wfG (s \<lparr> images := Map_set i (spreadImage existing d) (images s) \<rparr>)" for d
        using wf k g by (rule wfG_images_only)
      show ?thesis
      proof (cases "ui_imageCategory updateData")
        case None
        with i b Some show ?thesis
          by (simp add: galleryImageUpdate_def getImageById_def updateImage_def Let_def upd)
      next
        case (Some category)
        with i b \<open>Map_get (images s) i = Some existing\<close> show ?thesis
          by (simp add: galleryImageUpdate_def getImageById_def updateImage_def Let_def upd)
      qed
    qed
  qed
qed

lemma deleteImage_cases:
  "deleteImage s i =
     (case Map_get (images s) i of
        None \<Rightarrow> (False, s)
      | Some found \<Rightarrow>
          (case Map_get (galleries s) (img_galleryId found) of
             None \<Rightarrow> (True, s \<lparr> images := Map_delete i (images s) \<rparr>)
           | Some a \<Rightarrow>
               (True, s \<lparr> images := Map_delete i (images s),
                  objects := (objects s)[a := (objects s ! a)
                     \<lparr> g_totalImages := liveImageCount (s \<lparr> images := Map_delete i (images s) \<rparr>)
                          (img_galleryId found) \<rparr>],
                  galleries := Map_set (g_id ((objects s)[a := (objects s ! a)
                     \<lparr> g_totalImages := liveImageCount (s \<lparr> images := Map_delete i (images s) \<rparr>)
                          (img_galleryId found) \<rparr>] ! a)) a (galleries s) \<rparr>)))"
  by (simp add: deleteImage_def Let_def length_getImagesByGalleryId deref_def
      split: option.splits)

lemma wfG_galleryImageDelete:
  assumes wf: "wfG s"
  shows "wfG (snd (galleryImageDelete validation s))"
proof (cases validation)
  case (Inl issues)
  with wf show ?thesis by (simp add: galleryImageDelete_def)
next
  case (Inr i)
  show ?thesis
  proof (cases "Map_get (images s) i")
    case None
    with wf Inr show ?thesis by (simp add: galleryImageDelete_def getImageById_def)
  next
    case (Some found)
    let ?g = "img_galleryId found"
    let ?ims = "Map_delete i (images s)"
    from Some have "(i, found) \<in> set (images s)" by (rule Map_get_in)
    with wf have "?g \<in> fst ` set (galleries s)" unfolding wfG_def by blast
    from Map_get_key [OF this] obtain a where ga: "Map_get (galleries s) ?g = Some a" ..
    then have ina: "(?g, a) \<in> set (galleries s)" by (rule Map_get_in)
    with wf have la: "a < length (objects s)" and ida: "g_id (objects s ! a) = ?g"
      unfolding wfG_def by blast+
    have res: "snd (galleryImageDelete validation s) = s \<lparr> images := ?ims,
           objects := (objects s)[a := (objects s ! a)
              \<lparr> g_totalImages := liveImageCount (s \<lparr> images := ?ims \<rparr>) ?g \<rparr>] \<rparr>"
    proof -
      have "deleteImage s i = (True, s \<lparr> images := ?ims,
           objects := (objects s)[a := (objects s ! a)
              \<lparr> g_totalImages := liveImageCount (s \<lparr> images := ?ims \<rparr>) ?g \<rparr>] \<rparr>)"
        using Some ga la ida by (simp add: deleteImage_cases Map_set_same)
      then show ?thesis
        using Inr Some by (simp add: galleryImageDelete_def getImageById_def)
    qed
    from wf have d: "distinct (map fst ?ims)"
      by (simp add: wfG_def Map_delete_def distinct_map_filter)
    have sub: "img_galleryId im \<in> fst ` set (galleries s)" if "(j, im) \<in> set ?ims" for j im
    proof -
      from that have "(j, im) \<in> set (images s)" by (simp add: Map_delete_def)
      with wf show ?thesis unfolding wfG_def by blast
    qed
    have other: "liveImageCount (s \<lparr> images := ?ims \<rparr>) k = liveImageCount s k" if "k \<noteq> ?g" for k
    proof -
      from wf have dk: "distinct (map fst (images s))" by (simp add: wfG_def)
      from that have "\<not> (img_galleryId found = k)" by simp
      from filter_delete_other [OF dk Some, of "\<lambda>im. img_galleryId im = k", OF this]
      show ?thesis by (simp add: liveImageCount_def Map_values_def)
    qed
    show ?thesis
      unfolding res using wf ina d sub other by (rule wf_recount)
  qed
qed

lemma wfG_productVariationCreate:
  assumes wf: "wfG s"
  shows "wfG (snd (productVariationCreate newId validation s))"
proof (cases validation)
  case (Inl issues)
  with wf show ?thesis by (simp add: productVariationCreate_def)
next
  case (Inr params)
  have v: "wfG (s \<lparr> variations := vs \<rparr>)" for vs
    using wf unfolding wfG_def by (simp add: liveImageCount_def)
  show ?thesis
    using Inr by (simp add: productVariationCreate_def Let_def addVariation_def v)
qed

lemma wfG_empty: "wfG emptyGalleryStore"
  by (simp add: wfG_def emptyGalleryStore_def)

lemma reachableG_wfG: "reachableG s \<Longrightarrow> wfG s"
proof (induction rule: reachableG.induct)
  case rg_init
  show ?case by (rule wfG_empty)
next
  case (rg_get s newId validation)
  then show ?case by (simp add: wfG_galleryGet)
next
  case (rg_create s newId validation)
  then show ?case by (simp add: wfG_galleryImageCreate)
next
  case (rg_update s paramsValidation bodyValidation)
  then show ?case by (simp add: wfG_galleryImageUpdate)
next
  case (rg_delete s validation)
  then show ?case by (simp add: wfG_galleryImageDelete)
next
  case (rg_variation s newId validation)
  then show ?case by (simp add: wfG_productVariationCreate)
qed

lemma wfG_consistent:
  assumes "wfG s"
  shows "totalImagesConsistent s"
  unfolding totalImagesConsistent_def list_all_iff
proof
  fix a assume "a \<in> set (Map_values (galleries s))"
  then obtain k where "(k, a) \<in> set (galleries s)" by (auto simp: Map_values_def)
  with assms have "g_id (objects s ! a) = k \<and> g_totalImages (objects s ! a) = liveImageCount s k"
    unfolding wfG_def by blast
  then show "g_totalImages (deref s a) = liveImageCount s (g_id (deref s a))"
    by (simp add: deref_def)
qed

text \<open>
  In a well-formed store no call of \<open>galleryImageCreate\<close> changes the \<open>mainImageUrl\<close> of
  any gallery.
\<close>

lemma galleryImageCreate_keeps_mainImageUrl:
  assumes wf: "wfG s" and b: "Map_get (galleries s) k = Some b"
  shows "Map_get (galleries (snd (galleryImageCreate newId validation s))) k = Some b
     \<and> g_mainImageUrl (deref (snd (galleryImageCreate newId validation s)) b)
         = g_mainImageUrl (deref s b)"
proof (cases validation)
  case (Inl issues)
  with b show ?thesis by (simp add: galleryImageCreate_def)
next
  case (Inr params)
  show ?thesis
  proof (cases "getById_gallery s (ci_galleryId params)")
    case None
    with b Inr show ?thesis by (simp add: galleryImageCreate_unfold)
  next
    case (Some a)
    show ?thesis
    proof (cases "liveImageCount s (ci_galleryId params) < 50")
      case False
      then have "50 \<le> liveImageCount s (ci_galleryId params)" by simp
      from galleryImageCreate_full [OF Some this] b Inr show ?thesis by simp
    next
      case True
      from b have "(k, b) \<in> set (galleries s)" by (rule Map_get_in)
      with wf have "b < length (objects s)" unfolding wfG_def by blast
      then show ?thesis
        using Inr b
        by (cases "b = a")
          (simp_all add: galleryImageCreate_wf_eq [OF wf Some True] deref_def)
    qed
  qed
qed

lemma firstGet_eval:
  "firstGet =
     (Inr \<lparr> r_gallery = \<lparr> g_id = sampleGalleryId, g_productId = sampleProductId,
               g_mainImageUrl = [], g_totalImages = 0, g_currentImageIndex = 1,
               g_currentVariationId = None, g_displayMode = PAGE \<rparr>,
            r_images = [], r_variations = [] \<rparr>,
      \<lparr> objects = [\<lparr> g_id = sampleGalleryId, g_productId = sampleProductId,
               g_mainImageUrl = [], g_totalImages = 0, g_currentImageIndex = 1,
               g_currentVariationId = None, g_displayMode = PAGE \<rparr>],
        galleries = [(sampleGalleryId, 0)], images = [], variations = [] \<rparr>)"
  by (simp add: firstGet_def galleryGet_def getByProductId_def emptyGalleryStore_def
      Map_values_def alloc_def addGallery_def deref_def Let_def orNull_def
      INITIAL_IMAGE_INDEX_def DISPLAY_MODE_def getImagesByGalleryId_def Array_sort_def
      getVariationsByProductId_def)

lemma firstImage_eval:
  "firstImage =
     (Inr (newImageOf sampleNewId (sampleImageInput ''https://cdn.example.com/first.jpg'')),
      \<lparr> objects = [\<lparr> g_id = sampleGalleryId, g_productId = sampleProductId,
               g_mainImageUrl = [], g_totalImages = 1, g_currentImageIndex = 1,
               g_currentVariationId = None, g_displayMode = PAGE \<rparr>],
        galleries = [(sampleGalleryId, 0)],
        images = [(sampleNewId, newImageOf sampleNewId
                     (sampleImageInput ''https://cdn.example.com/first.jpg''))],
        variations = [] \<rparr>)"
  by (simp add: firstImage_def firstGet_eval galleryImageCreate_unfold getById_gallery_def
      Map_get_def sampleImageInput_def addImage_cases liveImageCount_def Map_values_def
      newImageOf_def deref_def)

text \<open>
  C1. The claim: the first image added to an empty gallery sets the gallery's
  \<open>mainImageUrl\<close> to the image's full-size URL. The service tests
  \<open>gallery.totalImages === 0\<close> after \<open>addImage\<close> has already assigned the new count to
  that same object, so the test never succeeds. Evaluated on a fresh store: the gallery
  is created with no images and an empty \<open>mainImageUrl\<close>; the first image is created
  successfully; afterwards \<open>totalImages\<close> is 1 and \<open>mainImageUrl\<close> is still empty.
\<close>

theorem first_image_leaves_mainImageUrl_empty:
  "fst firstGet =
     Inr \<lparr> r_gallery = \<lparr> g_id = sampleGalleryId, g_productId = sampleProductId,
               g_mainImageUrl = [], g_totalImages = 0, g_currentImageIndex = 1,
               g_currentVariationId = None, g_displayMode = PAGE \<rparr>,
            r_images = [], r_variations = [] \<rparr>
   \<and> fst firstImage
       = Inr (newImageOf sampleNewId (sampleImageInput ''https://cdn.example.com/first.jpg''))
   \<and> img_fullSizeUrl (newImageOf sampleNewId (sampleImageInput ''https://cdn.example.com/first.jpg''))
       = ''https://cdn.example.com/first.jpg''
   \<and> getById_gallery (snd firstImage) sampleGalleryId = Some 0
   \<and> g_totalImages (deref (snd firstImage) 0) = 1
   \<and> g_mainImageUrl (deref (snd firstImage) 0) = []"
  by (simp add: firstGet_eval firstImage_eval getById_gallery_def Map_get_def deref_def
      newImageOf_def sampleImageInput_def)

text \<open>
  C4. In every reachable store state each gallery's \<open>totalImages\<close> equals the number of
  stored images with that gallery's id, and the states that \<open>galleryGet\<close> (with its lazy
  creation), \<open>galleryImageCreate\<close>, \<open>galleryImageUpdate\<close> and \<open>galleryImageDelete\<close> lead to
  satisfy the equality again.
\<close>

theorem totalImages_invariant:
  assumes "reachableG s"
  shows "totalImagesConsistent s
     \<and> (newId \<notin> fst ` set (galleries s) \<longrightarrow>
          totalImagesConsistent (snd (galleryGet newId getValidation s)))
     \<and> (newId \<notin> fst ` set (images s) \<longrightarrow>
          totalImagesConsistent (snd (galleryImageCreate newId createValidation s)))
     \<and> totalImagesConsistent (snd (galleryImageUpdate paramsValidation bodyValidation s))
     \<and> totalImagesConsistent (snd (galleryImageDelete deleteValidation s))"
proof -
  from assms have wf: "wfG s" by (rule reachableG_wfG)
  show ?thesis
    using wf
    by (simp add: wfG_consistent wfG_galleryGet wfG_galleryImageCreate wfG_galleryImageUpdate
        wfG_galleryImageDelete)
qed

lemma reachable_firstImage: "reachableG (snd firstImage)"
proof -
  have "sampleGalleryId \<notin> fst ` set (galleries emptyGalleryStore)"
    by (simp add: emptyGalleryStore_def)
  from rg_get [OF rg_init this] have g: "reachableG (snd firstGet)"
    by (simp add: firstGet_def)
  have "sampleNewId \<notin> fst ` set (images (snd firstGet))"
    by (simp add: firstGet_eval)
  from rg_create [OF g this] show ?thesis
    by (simp add: firstImage_def)
qed

text \<open>The store after the first read and the first image, and one more step of each kind.\<close>

theorem totalImages_invariant_witness:
  "reachableG (snd firstImage)
   \<and> sampleId 1 \<notin> fst ` set (galleries (snd firstImage))
   \<and> sampleId 1 \<notin> fst ` set (images (snd firstImage))
   \<and> totalImagesConsistent (snd firstImage)
   \<and> g_totalImages (deref (snd firstImage) 0) = 1
   \<and> liveImageCount (snd firstImage) sampleGalleryId = 1
   \<and> totalImagesConsistent (snd (galleryGet (sampleId 1)
         (Inr \<lparr> gg_productId = sampleProductId, gg_variationId = None \<rparr>) (snd firstImage)))
   \<and> totalImagesConsistent (snd (galleryImageCreate (sampleId 1)
         (Inr (sampleImageInput ''https://cdn.example.com/second.jpg'')) (snd firstImage)))
   \<and> totalImagesConsistent (snd (galleryImageUpdate (Inr sampleNewId)
         (Inr \<lparr> ui_displayOrder = Some 2, ui_imageCategory = Some LATERAL, ui_captionText = None,
                ui_detailedDescription = None, ui_showCaption = None \<rparr>) (snd firstImage)))
   \<and> totalImagesConsistent (snd (galleryImageDelete (Inr sampleNewId) (snd firstImage)))"
proof -
  have f: "sampleId 1 \<notin> fst ` set (galleries (snd firstImage))"
    "sampleId 1 \<notin> fst ` set (images (snd firstImage))"
    by (simp_all add: firstImage_eval sampleId_def sampleGalleryId_def sampleNewId_def)
  have v: "g_totalImages (deref (snd firstImage) 0) = 1"
    "liveImageCount (snd firstImage) sampleGalleryId = 1"
    by (simp_all add: firstImage_eval deref_def liveImageCount_def Map_values_def newImageOf_def
        sampleImageInput_def)
  show ?thesis
    using totalImages_invariant [OF reachable_firstImage, of "sampleId 1"
        "Inr \<lparr> gg_productId = sampleProductId, gg_variationId = None \<rparr>"
        "Inr (sampleImageInput ''https://cdn.example.com/second.jpg'')"
        "Inr sampleNewId"
        "Inr \<lparr> ui_displayOrder = Some 2, ui_imageCategory = Some LATERAL, ui_captionText = None,
                ui_detailedDescription = None, ui_showCaption = None \<rparr>"
        "Inr sampleNewId"]
      reachable_firstImage f v
    by simp
qed

section \<open>The product store invariant\<close>

lemma set_Map_set_subset: "set (Map_set k v m) \<subseteq> insert (k, v) (set m)"
  by (induction m) (auto split: if_splits)

lemma keys_Map_set:
  "map fst (Map_set k v m) = (if k \<in> set (map fst m) then map fst m else map fst m @ [k])"
  by (induction m) force+

lemma distinct_Map_set: "distinct (map fst m) \<Longrightarrow> distinct (map fst (Map_set k v m))"
  by (simp add: keys_Map_set)

lemma wfP_set:
  assumes wf: "wfP s" and id: "p_id r = i"
    and codes: "\<And>k' r'. p_active r \<Longrightarrow> (k', r') \<in> set (records s) \<Longrightarrow> p_active r'
        \<Longrightarrow> p_code r' = p_code r \<Longrightarrow> k' = i"
  shows "wfP (s \<lparr> records := Map_set i r (records s) \<rparr>)"
proof -
  let ?m = "Map_set i r (records s)"
  have sub: "(k, x) \<in> set ?m \<Longrightarrow> (k, x) = (i, r) \<or> (k, x) \<in> set (records s)" for k x
    using set_Map_set_subset [of i r "records s"] by blast
  from wf have d: "distinct (map fst ?m)" by (simp add: wfP_def distinct_Map_set)
  have ids: "p_id x = k" if "(k, x) \<in> set ?m" for k x
  proof -
    from sub [OF that] show ?thesis
    proof
      assume "(k, x) = (i, r)" with id show ?thesis by simp
    next
      assume "(k, x) \<in> set (records s)" with wf show ?thesis unfolding wfP_def by blast
    qed
  qed
  have uniq: "k = k'" if "(k, x) \<in> set ?m" "(k', x') \<in> set ?m"
      "p_active x" "p_active x'" "p_code x = p_code x'" for k x k' x'
  proof -
    from sub [OF that(1)] sub [OF that(2)] show ?thesis
    proof (elim disjE)
      assume "(k, x) = (i, r)" "(k', x') = (i, r)" then show ?thesis by simp
    next
      assume "(k, x) = (i, r)" "(k', x') \<in> set (records s)"
      with codes [of k' x'] that show ?thesis by simp
    next
      assume "(k, x) \<in> set (records s)" "(k', x') = (i, r)"
      with codes [of k x] that show ?thesis by simp
    next
      assume "(k, x) \<in> set (records s)" "(k', x') \<in> set (records s)"
      with wf that show ?thesis unfolding wfP_def by blast
    qed
  qed
  have r: "records (s \<lparr> records := ?m \<rparr>) = ?m" by simp
  show ?thesis
    unfolding wfP_def r
  proof (intro conjI)
    show "distinct (map fst ?m)" by (rule d)
    show "\<forall>(k, r)\<in>set ?m. p_id r = k" using ids by blast
    show "\<forall>(k, r)\<in>set ?m. \<forall>(k', r')\<in>set ?m.
        p_active r \<and> p_active r' \<and> p_code r = p_code r' \<longrightarrow> k = k'"
      using uniq by blast
  qed
qed

lemma codeExists_iff:
  "codeExists s c ex \<longleftrightarrow>
     (\<exists>k r. (k, r) \<in> set (records s) \<and> p_code r = c \<and> p_active r \<and> Some (p_id r) \<noteq> ex)"
  by (simp add: codeExists_def list_ex_iff Map_values_def) force


lemma wfP_productCreate:
  assumes wf: "wfP s"
  shows "wfP (snd (productCreate now newId validation s))"
proof (cases validation)
  case (Inl issues)
  with wf show ?thesis by (simp add: productCreate_def)
next
  case (Inr params)
  show ?thesis
  proof (cases "codeExists s (c_code params) None")
    case True
    with wf Inr show ?thesis by (simp add: productCreate_def)
  next
    case False
    show ?thesis
    proof (cases "Map_size (records s) \<ge> MAX_PRODUCTS")
      case True
      with wf Inr False show ?thesis by (simp add: productCreate_def Let_def add_def)
    next
      case room: False
      have new: "wfP (s \<lparr> records := Map_set newId r (records s) \<rparr>)"
        if "p_id r = newId" "p_code r = c_code params" for r
      proof (rule wfP_set [OF wf that(1)])
        fix k' r' assume "(k', r') \<in> set (records s)" "p_active r'" "p_code r' = p_code r"
        with False that(2) show "k' = newId" unfolding codeExists_iff by force
      qed
      show ?thesis
        using Inr False room by (simp add: productCreate_def Let_def add_def new)
    qed
  qed
qed

lemma wfP_update_fields:
  assumes wf: "wfP s" and g: "Map_get (records s) i = Some ex" and a: "p_active ex"
    and id: "p_id r = p_id ex"
    and code: "p_code r = p_code ex \<or> \<not> codeExists s (p_code r) (Some i)"
  shows "wfP (s \<lparr> records := Map_set i r (records s) \<rparr>)"
proof -
  from g have inx: "(i, ex) \<in> set (records s)" by (rule Map_get_in)
  with wf have idx: "p_id ex = i" unfolding wfP_def by blast
  show ?thesis
  proof (rule wfP_set [OF wf])
    show "p_id r = i" using id idx by simp
  next
    fix k' r' assume h: "(k', r') \<in> set (records s)" "p_active r'" "p_code r' = p_code r"
    from h(1) wf have k': "p_id r' = k'" unfolding wfP_def by blast
    from code show "k' = i"
    proof
      assume "p_code r = p_code ex"
      with h(3) have "p_code r' = p_code ex" by simp
      with h(1,2) inx a wf show ?thesis unfolding wfP_def by blast
    next
      assume "\<not> codeExists s (p_code r) (Some i)"
      with h k' show ?thesis unfolding codeExists_iff by force
    qed
  qed
qed

lemma wfP_deactivate:
  assumes wf: "wfP s" and g: "Map_get (records s) i = Some ex"
  shows "wfP (s \<lparr> records := Map_set i (ex \<lparr> p_active := False \<rparr>) (records s) \<rparr>)"
proof (rule wfP_set [OF wf])
  from g have "(i, ex) \<in> set (records s)" by (rule Map_get_in)
  with wf show "p_id (ex \<lparr> p_active := False \<rparr>) = i" unfolding wfP_def by auto
qed simp

lemma wfP_productUpdate:
  assumes wf: "wfP s"
  shows "wfP (snd (productUpdate now paramsValidation bodyValidation s))"
proof (cases paramsValidation)
  case (Inl issues)
  with wf show ?thesis by (simp add: productUpdate_def)
next
  case i: (Inr i)
  show ?thesis
  proof (cases bodyValidation)
    case (Inl issues)
    with wf i show ?thesis by (simp add: productUpdate_def)
  next
    case b: (Inr updateData)
    show ?thesis
    proof (cases "getById s i")
      case None
      with wf i b show ?thesis by (simp add: productUpdate_def)
    next
      case (Some existing)
      then have g: "Map_get (records s) i = Some existing" and a: "p_active existing"
        by (simp_all add: getById_Some_iff)
      show ?thesis
      proof (cases "d_code updateData \<noteq> p_code existing \<and> codeExists s (d_code updateData) (Some i)")
        case True
        with wf i b Some show ?thesis by (simp add: productUpdate_def)
      next
        case False
        have upd: "wfP (s \<lparr> records := Map_set i r (records s) \<rparr>)"
          if "p_id r = p_id existing" "p_code r = d_code updateData" for r
          using wf g a that(1)
        proof (rule wfP_update_fields)
          from False that(2) show "p_code r = p_code existing \<or> \<not> codeExists s (p_code r) (Some i)"
            by auto
        qed
        show ?thesis
          using i b Some g False wf
          by (simp add: productUpdate_def update_def Let_def upd spreadProduct_def
              emptyPartial_def orElse_def)
      qed
    qed
  qed
qed

lemma wfP_productDelete:
  assumes wf: "wfP s"
  shows "wfP (snd (productDelete validation s))"
proof (cases validation)
  case (Inl issues)
  with wf show ?thesis by (simp add: productDelete_def)
next
  case (Inr i)
  show ?thesis
  proof (cases "Map_get (records s) i")
    case None
    with wf Inr show ?thesis by (simp add: productDelete_def exists_def)
  next
    case (Some ex)
    with wf Inr show ?thesis
      by (simp add: productDelete_def exists_def delete_def wfP_deactivate)
  qed
qed

lemma wfP_productInteraction:
  assumes wf: "wfP s"
  shows "wfP (snd (productInteraction validation s))"
proof (cases validation)
  case (Inl issues)
  with wf show ?thesis by (simp add: productInteraction_def)
next
  case (Inr body)
  show ?thesis
  proof (cases "getById s (i_productId body)")
    case None
    with wf Inr show ?thesis by (simp add: productInteraction_def)
  next
    case (Some product)
    then have g: "Map_get (records s) (i_productId body) = Some product" and a: "p_active product"
      by (simp_all add: getById_Some_iff)
    have upd: "wfP (s \<lparr> records := Map_set (i_productId body) r (records s) \<rparr>)"
      if "p_id r = p_id product" "p_code r = p_code product" for r
      using wf g a that(1)
    proof (rule wfP_update_fields)
      from that(2) show "p_code r = p_code product
          \<or> \<not> codeExists s (p_code r) (Some (i_productId body))" by simp
    qed
    show ?thesis
      using Inr Some g
      by (cases "i_interactionType body")
        (simp_all add: productInteraction_def update_def Let_def upd spreadProduct_def
          emptyPartial_def orElse_def)
  qed
qed

lemma reachableP_wfP: "reachableP s \<Longrightarrow> wfP s"
proof (induction rule: reachableP.induct)
  case rp_init
  show ?case by (simp add: wfP_def emptyProductStore_def)
next
  case (rp_create s now newId validation)
  then show ?case by (simp add: wfP_productCreate)
next
  case (rp_update s now paramsValidation bodyValidation)
  then show ?case by (simp add: wfP_productUpdate)
next
  case (rp_delete s validation)
  then show ?case by (simp add: wfP_productDelete)
next
  case (rp_interaction s validation)
  then show ?case by (simp add: wfP_productInteraction)
qed

section \<open>Product codes and capacity\<close>

text \<open>
  C9. In every reachable product store and for every active product \<open>p\<close> in it:
  \<open>codeExists(p.code)\<close> is true, \<open>codeExists(p.code, p.id)\<close> is false, and \<open>productUpdate\<close> of
  \<open>p\<close> with a body whose code is \<open>p.code\<close> succeeds, so it does not raise
  \<open>DUPLICATE_CODE\<close>.
\<close>

theorem codeExists_own_code:
  assumes "reachableP s" and "getById s i = Some p"
  shows "codeExists s (p_code p) None
     \<and> \<not> codeExists s (p_code p) (Some (p_id p))
     \<and> (d_code body = p_code p \<longrightarrow>
          (\<exists>updated s'. productUpdate now (Inr (p_id p)) (Inr body) s = (Inr updated, s')))"
proof -
  from assms(1) have wf: "wfP s" by (rule reachableP_wfP)
  from assms(2) have g: "Map_get (records s) i = Some p" and a: "p_active p"
    by (simp_all add: getById_Some_iff)
  from g have inp: "(i, p) \<in> set (records s)" by (rule Map_get_in)
  with wf have id: "p_id p = i" unfolding wfP_def by blast
  have c1: "codeExists s (p_code p) None"
    unfolding codeExists_iff using inp a by blast
  have c2: "\<not> codeExists s (p_code p) (Some (p_id p))"
  proof
    assume "codeExists s (p_code p) (Some (p_id p))"
    then obtain k r where r: "(k, r) \<in> set (records s)" "p_code r = p_code p" "p_active r"
      "p_id r \<noteq> p_id p"
      unfolding codeExists_iff by auto
    from r(1) wf have "p_id r = k" unfolding wfP_def by blast
    moreover from r(1,2,3) inp a wf have "k = i" unfolding wfP_def by blast
    ultimately show False using r(4) id by simp
  qed
  have c3: "\<exists>updated s'. productUpdate now (Inr (p_id p)) (Inr body) s = (Inr updated, s')"
    if "d_code body = p_code p"
    using that assms(2) g
    by (simp add: productUpdate_def id update_def Let_def)
  from c1 c2 c3 show ?thesis by blast
qed

lemma createdStore_eval:
  "createdStore = \<lparr> records = [(sampleProductId,
      \<lparr> p_id = sampleProductId, p_name = ''Mesa'', p_code = ''LZ-0001'',
        p_mainImageUrl = ''https://cdn.example.com/mesa.jpg'', p_price = Some 100,
        p_availabilityStatus = AVAILABLE, p_isFeatured = False, p_isNew = True,
        p_createdDate = 0, p_isPromotional = False, p_promotionalPrice = None,
        p_popularityScore = 0, p_viewCount = 0, p_clickCount = 0, p_interactionCount = 0,
        p_lastPopularityUpdate = 0, p_active = True \<rparr>)] \<rparr>"
  by (simp add: createdStore_def productCreate_def codeExists_def emptyProductStore_def
      Map_values_def sampleCreateInput_def Let_def add_def Map_size_def MAX_PRODUCTS_def
      orElse_def)

text \<open>The store after creating one product, and an update that keeps its code.\<close>

theorem codeExists_own_code_witness:
  "reachableP createdStore
   \<and> (\<exists>p. getById createdStore sampleProductId = Some p \<and> p_code p = ''LZ-0001''
          \<and> p_id p = sampleProductId)
   \<and> codeExists createdStore ''LZ-0001'' None
   \<and> \<not> codeExists createdStore ''LZ-0001'' (Some sampleProductId)
   \<and> (\<exists>updated s'. productUpdate 0 (Inr sampleProductId) (Inr (sampleUpdateInput ''LZ-0001''))
          createdStore = (Inr updated, s'))"
proof -
  let ?p = "\<lparr> p_id = sampleProductId, p_name = ''Mesa'', p_code = ''LZ-0001'',
        p_mainImageUrl = ''https://cdn.example.com/mesa.jpg'', p_price = Some 100,
        p_availabilityStatus = AVAILABLE, p_isFeatured = False, p_isNew = True,
        p_createdDate = 0, p_isPromotional = False, p_promotionalPrice = None,
        p_popularityScore = 0, p_viewCount = 0, p_clickCount = 0, p_interactionCount = 0,
        p_lastPopularityUpdate = 0, p_active = True \<rparr>"
  have r: "reachableP createdStore"
    unfolding createdStore_def by (rule rp_create [OF rp_init])
  have g: "getById createdStore sampleProductId = Some ?p"
    by (simp add: createdStore_eval getById_def Map_get_def)
  show ?thesis
    using codeExists_own_code [OF r g, of "sampleUpdateInput ''LZ-0001''" 0] r g
    by (simp add: sampleUpdateInput_def)
qed

lemma productCreate_room:
  assumes "\<not> codeExists s (c_code params) None" and "Map_size (records s) < MAX_PRODUCTS"
  shows "\<exists>r. productCreate now newId (Inr params) s
           = (Inr r, s \<lparr> records := Map_set newId r (records s) \<rparr>)
         \<and> p_id r = newId \<and> p_code r = c_code params \<and> p_active r"
  using assms by (simp add: productCreate_def Let_def add_def)

lemma productCreate_full:
  assumes "\<not> codeExists s (c_code params) None" and "MAX_PRODUCTS \<le> Map_size (records s)"
  shows "productCreate now newId (Inr params) s = (Inl (Error ''Maximum products limit reached''), s)"
  using assms by (simp add: productCreate_def Let_def add_def)

lemma sample_product_facts:
  "Map_size (records (sampleProductStore n act)) = n"
  "\<not> codeExists (sampleProductStore n False) (c_code (sampleCreateInput ''LZ-0002'')) None"
  "sampleNewId \<notin> fst ` set (records (sampleProductStore n act))"
  by (auto simp: Map_size_def sampleProductStore_def codeExists_def Map_values_def list_ex_iff
      sampleProduct_def sampleCreateInput_def sampleNewId_def sampleId_def)

text \<open>
  C6. The store holds 10,000 records, all soft-deleted, so that no code is taken, and the
  request passes validation. \<open>productCreate\<close> fails and leaves the store as it was, but
  what it throws is the plain \<open>Error\<close> "Maximum products limit reached" of
  \<open>ProductStore.add\<close>, which it does not catch: no \<open>ServiceError\<close> with a code of its own
  reaches the caller. The gallery service, at its limit, catches the same kind of
  \<open>Error\<close> and throws \<open>ServiceError\<close> \<open>MAX_IMAGES_REACHED\<close> (status 400) in its place.
\<close>

theorem productCreate_full_store_plain_error:
  "productCreate 0 sampleNewId (Inr (sampleCreateInput ''LZ-0002''))
       (sampleProductStore 10000 False)
     = (Inl (Error ''Maximum products limit reached''), sampleProductStore 10000 False)"
  using productCreate_full [OF sample_product_facts(2) [of 10000], of 0 sampleNewId]
  by (simp add: sample_product_facts MAX_PRODUCTS_def)

section \<open>The sample identifiers are distinct\<close>

lemma length_decimal: "length (decimal k n) = k"
  by (induction k arbitrary: n) auto

lemma digit_char_inj:
  assumes "char_of (48 + a mod 10 :: nat) = (char_of (48 + b mod 10 :: nat) :: char)"
  shows "a mod 10 = b mod 10"
proof -
  have "a mod 10 < 10" "b mod 10 < 10" by simp_all
  then have "(48 + a mod 10) mod 256 = 48 + a mod 10" "(48 + b mod 10) mod 256 = 48 + b mod 10"
    by simp_all
  with assms show ?thesis
    by (metis add_left_cancel of_char_of)
qed

lemma decimal_inj: "decimal k n = decimal k m \<Longrightarrow> n mod 10 ^ k = m mod 10 ^ k"
proof (induction k arbitrary: n m)
  case 0
  then show ?case by simp
next
  case (Suc k)
  from Suc.prems have e: "decimal k (n div 10) = decimal k (m div 10)"
    and c: "char_of (48 + n mod 10) = (char_of (48 + m mod 10) :: char)"
    by simp_all
  from Suc.IH [OF e] have "n div 10 mod 10 ^ k = m div 10 mod 10 ^ k" .
  moreover from c have "n mod 10 = m mod 10" by (rule digit_char_inj)
  ultimately show ?case
    by (simp add: mod_mult2_eq)
qed

lemma sampleId_inj: "i < 10 ^ 12 \<Longrightarrow> j < 10 ^ 12 \<Longrightarrow> sampleId i = sampleId j \<Longrightarrow> i = j"
  using decimal_inj [of 12 i j] by (simp add: sampleId_def)

lemma distinct_sampleIds:
  assumes "n \<le> 10 ^ 12"
  shows "distinct (map sampleId [0..<n])"
proof -
  have "inj_on sampleId (set [0..<n])"
  proof (rule inj_onI)
    fix x y assume "x \<in> set [0..<n]" "y \<in> set [0..<n]" and e: "sampleId x = sampleId y"
    with assms have "x < 10 ^ 12" "y < 10 ^ 12" by auto
    then show "x = y" using e by (rule sampleId_inj)
  qed
  then show ?thesis by (simp add: distinct_map)
qed

lemma distinct_sampleProductStore:
  "n \<le> 10 ^ 12 \<Longrightarrow> distinct (map fst (records (sampleProductStore n act)))"
  using distinct_sampleIds [of n] by (simp add: sampleProductStore_def comp_def)

lemma distinct_sampleGalleryStore:
  "n \<le> 10 ^ 12 \<Longrightarrow> distinct (map fst (images (sampleGalleryStore n)))"
  using distinct_sampleIds [of n] by (simp add: sampleGalleryStore_def comp_def)


text \<open>
  The store of \<open>n\<close> soft-deleted records used above is one the service can produce:
  create and delete \<open>n\<close> products in turn.
\<close>

lemma sampleId_fresh: "sampleId n \<notin> sampleId ` {0..<n}" if "n < 10 ^ 12"
proof
  assume "sampleId n \<in> sampleId ` {0..<n}"
  then obtain i where i: "i < n" "sampleId n = sampleId i" by auto
  with that have "i < 10 ^ 12" by simp
  from sampleId_inj [OF that this i(2)] i(1) show False by simp
qed

lemma sampleProductStore_Suc:
  "sampleProductStore (Suc n) act
     = \<lparr> records = records (sampleProductStore n act) @ [(sampleId n, sampleProduct n None act)] \<rparr>"
  by (simp add: sampleProductStore_def)

lemma create_delete_sample:
  assumes "n < 10000"
  shows "snd (productDelete (Inr (sampleId n))
            (snd (productCreate 0 (sampleId n) (Inr (sampleProductInput n))
                    (sampleProductStore n False))))
         = sampleProductStore (Suc n) False"
proof -
  let ?s = "sampleProductStore n False"
  let ?r = "sampleProduct n None True"
  from assms have lt: "n < 10 ^ 12" by simp
  have fresh: "sampleId n \<notin> fst ` set (records ?s)"
    using sampleId_fresh [OF lt] by (simp add: sampleProductStore_def image_comp comp_def)
  have nc: "\<not> codeExists ?s (c_code (sampleProductInput n)) None"
    by (simp add: codeExists_def sampleProductStore_def Map_values_def list_ex_iff
        sampleProduct_def)
  have sz: "Map_size (records ?s) < MAX_PRODUCTS"
    using assms by (simp add: Map_size_def sampleProductStore_def MAX_PRODUCTS_def)
  have c: "productCreate 0 (sampleId n) (Inr (sampleProductInput n)) ?s
      = (Inr ?r, \<lparr> records = records ?s @ [(sampleId n, ?r)] \<rparr>)"
    using nc sz fresh
    by (simp add: productCreate_def Let_def add_def Map_set_fresh sampleProductInput_def
        sampleProduct_def orElse_def)
  have g: "Map_get (records ?s @ [(sampleId n, ?r)]) (sampleId n) = Some ?r"
    using fresh by (simp add: Map_get_def map_of_append map_add_def split: option.splits)
      (metis fst_conv image_eqI map_of_SomeD)
  have d: "Map_set (sampleId n) (?r \<lparr> p_active := False \<rparr>) (records ?s @ [(sampleId n, ?r)])
      = records ?s @ [(sampleId n, sampleProduct n None False)]"
  proof -
    have "Map_set k v (m @ [(k, w)]) = m @ [(k, v)]" if "k \<notin> fst ` set m" for k v w
      and m :: "(string, ProductRecord) jsmap"
      using that by (induction m) auto
    from this [OF fresh] show ?thesis by (simp add: sampleProduct_def)
  qed
  let ?s1 = "\<lparr> records = records ?s @ [(sampleId n, ?r)] \<rparr>"
  have a: "p_active ?r" by (simp add: sampleProduct_def)
  have e: "exists ?s1 (sampleId n)"
    using g a by (simp add: exists_def)
  have dl: "snd (delete ?s1 (sampleId n)) = sampleProductStore (Suc n) False"
    using g d by (simp add: delete_def sampleProductStore_Suc)
  have "snd (productDelete (Inr (sampleId n)) ?s1) = sampleProductStore (Suc n) False"
    using e dl by (simp add: productDelete_def)
  then show ?thesis
    unfolding c by simp
qed

lemma sampleProductStore_reachable: "n \<le> 10000 \<Longrightarrow> reachableP (sampleProductStore n False)"
proof (induction n)
  case 0
  have "sampleProductStore 0 False = emptyProductStore"
    by (simp add: sampleProductStore_def emptyProductStore_def)
  then show ?case by (simp add: rp_init)
next
  case (Suc n)
  then have r: "reachableP (sampleProductStore n False)" and lt: "n < 10000" by simp_all
  from rp_delete [OF rp_create [OF r]] show ?case
    unfolding create_delete_sample [OF lt, symmetric] .
qed

end
